theory Spec2Isabelle
  imports Complex_Main "HOL-Library.Char_ord" "HOL-Library.List_Lexorder"
    "HOL-Library.Product_Lexorder"
begin

section \<open>LoLMatchProcessor: a shallow embedding\<close>

text \<open>
  The embedding follows \<^verbatim>\<open>src/LoLMatchProcessor.py\<close>. Python exceptions are values of
  \<open>py_error\<close>, a function that may raise returns \<open>py_error + 'a\<close> (\<open>Inl\<close> the exception).
  Python integers are \<open>int\<close>. The float64 columns are \<open>real\<close>: exact arithmetic stands in
  for floating point, which is exact for a halved difference of integers below \<open>2^53\<close>.
  Strings are \<open>string\<close>, ordered lexicographically by character code as Python orders
  \<open>str\<close>.
\<close>

datatype py_error = JSONDecodeError | AttributeError | KeyError | ValueError | TypeError

subsection \<open>HTTP fetching\<close>

text \<open>
  A parsed JSON body. Only a JSON object (a Python \<open>dict\<close>) has \<open>.keys()\<close>.
\<close>

datatype json = JDict "(string \<times> json) list" | JList "json list" | JString string
  | JNumber int | JBool bool | JNull

text \<open>
  \<open>requests.get\<close> returns a response: its status code and its body, where \<open>body = None\<close>
  is a body on which \<open>resp.json()\<close> raises. A server is seen through the responses it gives
  to the successive GET requests of one URL, \<open>rs :: nat \<Rightarrow> response\<close>. The record \<open>net\<close>
  counts the requests issued and the seconds spent in \<open>time.sleep\<close>.
\<close>

record response =
  status_code :: int
  body :: "json option"

record net =
  requests :: nat
  slept :: nat

definition net0 :: net where
  "net0 = \<lparr>requests = 0, slept = 0\<rparr>"

definition resp_json :: "response \<Rightarrow> py_error + json option" where
  "resp_json resp = (case body resp of None \<Rightarrow> Inl JSONDecodeError | Some data \<Rightarrow> Inr (Some data))"

text \<open>
  \<open>fetch_with_retry\<close> (lines 89-111): \<open>while True\<close>, so the function is partial; the value
  \<open>None\<close> of the option type is the loop that never returns. The \<open>print\<close> of the 200 branch
  calls \<open>data.keys()\<close>, which raises \<open>AttributeError\<close> on a body that is not an object.
\<close>

partial_function (option) fetch_with_retry ::
  "(nat \<Rightarrow> response) \<Rightarrow> net \<Rightarrow> (net \<times> (py_error + json option)) option" where
  "fetch_with_retry rs s =
     (let resp = rs (requests s); s1 = s\<lparr>requests := requests s + 1\<rparr> in
      case body resp of
        None \<Rightarrow> Some (s1, Inr None)
      | Some data \<Rightarrow>
          if status_code resp = 200 then
            (case data of JDict kvs \<Rightarrow> Some (s1, Inr (Some data))
                        | _ \<Rightarrow> Some (s1, Inl AttributeError))
          else if status_code resp = 429 then
            fetch_with_retry rs (s1\<lparr>slept := slept s1 + 10\<rparr>)
          else if status_code resp = 403 then Some (s1, Inr None)
          else Some (s1, Inr None))"

text \<open>
  \<open>_safe_get\<close> (lines 122-131): \<open>for _ in range(max_retries)\<close>; the first argument of the
  loop is the number of iterations left.
\<close>

fun safe_get_loop :: "nat \<Rightarrow> (nat \<Rightarrow> response) \<Rightarrow> net \<Rightarrow> net \<times> (py_error + json option)" where
  "safe_get_loop 0 rs s = (s, Inr None)"
| "safe_get_loop (Suc k) rs s =
     (let resp = rs (requests s); s1 = s\<lparr>requests := requests s + 1\<rparr> in
      if status_code resp = 200 then (s1, resp_json resp)
      else if status_code resp = 429 then safe_get_loop k rs (s1\<lparr>slept := slept s1 + 10\<rparr>)
      else if status_code resp \<in> {403, 401, 404} then (s1, Inr None)
      else safe_get_loop k rs s1)"

definition safe_get :: "(nat \<Rightarrow> response) \<Rightarrow> nat \<Rightarrow> net \<times> (py_error + json option)" where
  "safe_get rs max_retries = safe_get_loop max_retries rs net0"

text \<open>
  \<open>fetch_match_data\<close> and \<open>fetch_timeline_data\<close> (lines 114-120) build the URL and call
  \<open>_safe_get\<close> with its default \<open>max_retries=3\<close>; \<open>srv url\<close> is the sequence of responses
  of the server for that URL.
\<close>

definition fetch_match_data ::
  "(string \<Rightarrow> nat \<Rightarrow> response) \<Rightarrow> string \<Rightarrow> string \<Rightarrow> net \<times> (py_error + json option)" where
  "fetch_match_data srv base_url match = safe_get (srv (base_url @ ''/'' @ match)) 3"

definition fetch_timeline_data ::
  "(string \<Rightarrow> nat \<Rightarrow> response) \<Rightarrow> string \<Rightarrow> string \<Rightarrow> net \<times> (py_error + json option)" where
  "fetch_timeline_data srv base_url match =
     safe_get (srv (base_url @ ''/'' @ match @ ''/timeline'')) 3"

text \<open>
  The responses that end the loop of \<open>_safe_get\<close>, and the first of them among the
  attempts \<open>i, i+1, ..., i+k-1\<close>.
\<close>

definition decisive :: "response \<Rightarrow> bool" where
  "decisive resp = (status_code resp \<in> {200, 401, 403, 404})"

fun first_decisive :: "nat \<Rightarrow> (nat \<Rightarrow> response) \<Rightarrow> nat \<Rightarrow> nat option" where
  "first_decisive 0 rs i = None"
| "first_decisive (Suc k) rs i = (if decisive (rs i) then Some i else first_decisive k rs (Suc i))"

definition count_429 :: "(nat \<Rightarrow> response) \<Rightarrow> nat \<Rightarrow> nat \<Rightarrow> nat" where
  "count_429 rs i j = length (filter (\<lambda>n. status_code (rs n) = 429) [i..<j])"

text \<open>
  One iteration of the loop of \<open>fetch_with_retry\<close> goes round again on a response whose
  body parses and whose status is 429; on any other response it returns \<open>fetch_result\<close>.
\<close>

definition retryable :: "response \<Rightarrow> bool" where
  "retryable resp = (body resp \<noteq> None \<and> status_code resp = 429)"

definition fetch_result :: "response \<Rightarrow> py_error + json option" where
  "fetch_result resp =
     (case body resp of
        None \<Rightarrow> Inr None
      | Some data \<Rightarrow>
          if status_code resp = 200 then
            (case data of JDict kvs \<Rightarrow> Inr (Some data) | _ \<Rightarrow> Inl AttributeError)
          else Inr None)"

subsection \<open>Player snapshots\<close>

text \<open>
  A row of the table that \<open>get_14_min_stats\<close> returns (lines 249-257), the columns in
  the order of the source. \<open>firstBloodKill\<close> and \<open>win\<close> are the integers of
  \<open>astype(int)\<close>.
\<close>

record snapshot =
  match_id :: string
  participantId :: int
  championName :: string
  totalGold :: int
  goldPerMinute :: real
  minionsKilled :: int
  jungleMinionsKilled :: int
  totalMinionsKilled :: int
  csPerMinute :: real
  xp :: int
  level :: int
  wards_placed :: int
  kills_14 :: int
  deaths_14 :: int
  assists_14 :: int
  platesTaken_14 :: int
  towersKilled_14 :: int
  firstBloodKill :: int
  teamDragonKills_14 :: int
  teamHordeKills_14 :: int
  teamId :: int
  teamPosition :: string
  win :: int

subsection \<open>Tables\<close>

text \<open>
  The table \<open>players\<close> of the six transforms (lines 318-446) is a pandas DataFrame: the
  index labels of the rows (\<open>p.name\<close>), in order, and the columns by name, in order, each
  with one cell per row. A cell is an integer, a float or a string. Integer cells stand
  for \<open>int64\<close> values far from the bounds, as the counts of a match are; missing values
  (\<open>NaN\<close>) are not among the cells.
\<close>

datatype cell = CInt int | CFloat real | CStr string

record data_frame =
  index :: "int list"
  columns :: "(string \<times> cell list) list"

text \<open>
  A table has pairwise distinct column names, and every column has one cell per row.
\<close>

definition wf_frame :: "data_frame \<Rightarrow> bool" where
  "wf_frame df =
     (distinct (map fst (columns df))
      \<and> (\<forall>c \<in> set (columns df). length (snd c) = length (index df)))"

text \<open>
  The tables live in a store, and a variable holds the address of its table: assigning to
  a column or a cell changes the table at that address, for whoever holds it.
  \<open>players.copy()\<close> makes a new table at a new address, with the cells of the old one.
\<close>

type_synonym store = "data_frame list"

definition copy :: "store \<Rightarrow> nat \<Rightarrow> store \<times> nat" where
  "copy st p = (st @ [st ! p], length st)"

text \<open>
  \<open>players[name] = v\<close> with a scalar \<open>v\<close>: the column \<open>name\<close> gets \<open>v\<close> in every row. An
  existing column of that name is replaced where it stands, otherwise the column is
  added after the others.
\<close>

definition set_column :: "data_frame \<Rightarrow> string \<Rightarrow> cell list \<Rightarrow> data_frame" where
  "set_column df name col =
     (if name \<in> set (map fst (columns df))
      then df\<lparr>columns := map (\<lambda>(n, c). if n = name then (n, col) else (n, c)) (columns df)\<rparr>
      else df\<lparr>columns := columns df @ [(name, col)]\<rparr>)"

definition setitem :: "store \<Rightarrow> nat \<Rightarrow> string \<Rightarrow> cell \<Rightarrow> store" where
  "setitem st p name v =
     st[p := set_column (st ! p) name (replicate (length (index (st ! p))) v)]"

text \<open>
  \<open>players.loc[label, name] = v\<close> writes \<open>v\<close> in the column \<open>name\<close> of every row whose
  index label is \<open>label\<close>. The transforms use it with a label of the index and the column
  they have just set, so no row and no column is added by it.
\<close>

definition loc_write :: "data_frame \<Rightarrow> int \<Rightarrow> string \<Rightarrow> cell \<Rightarrow> data_frame" where
  "loc_write df label name v =
     df\<lparr>columns :=
          map (\<lambda>(n, c). if n = name
                 then (n, map (\<lambda>(l, x). if l = label then v else x) (zip (index df) c))
                 else (n, c))
            (columns df)\<rparr>"

definition loc_setitem :: "store \<Rightarrow> nat \<Rightarrow> int \<Rightarrow> string \<Rightarrow> cell \<Rightarrow> store" where
  "loc_setitem st p label name v = st[p := loc_write (st ! p) label name v]"

text \<open>
  \<open>df.groupby(name)\<close>, iterated: \<open>KeyError\<close> without such a column; otherwise the groups
  in ascending order of the key, each with its rows in the order of the table. A group is
  the list of the positions of its rows, and \<open>rows\<close> are the positions of the rows of
  \<open>df\<close> that make the table grouped (all of them for \<open>players\<close>, those of one match for
  \<open>match_df\<close>). Numbers come before strings, an integer and a float of the same value are
  one key.
\<close>

definition group_key :: "cell \<Rightarrow> nat \<times> real \<times> string" where
  "group_key c =
     (case c of CInt i \<Rightarrow> (0, real_of_int i, []) | CFloat x \<Rightarrow> (0, x, []) | CStr s \<Rightarrow> (1, 0, s))"

definition group_rows :: "cell list \<Rightarrow> nat list \<Rightarrow> nat list list" where
  "group_rows col rows =
     map (\<lambda>k. filter (\<lambda>i. group_key (col ! i) = k) rows)
       (sort (remdups (map (\<lambda>i. group_key (col ! i)) rows)))"

definition groupby :: "data_frame \<Rightarrow> nat list \<Rightarrow> string \<Rightarrow> py_error + nat list list" where
  "groupby df rows name =
     (case map_of (columns df) name of
        None \<Rightarrow> Inl KeyError
      | Some col \<Rightarrow> Inr (group_rows col rows))"

text \<open>The number in a cell, for the subtraction; a string has none.\<close>

definition number :: "cell \<Rightarrow> real option" where
  "number c = (case c of CInt i \<Rightarrow> Some (real_of_int i) | CFloat x \<Rightarrow> Some x | CStr s \<Rightarrow> None)"

text \<open>
  A \<open>for\<close> loop whose body may raise: the state after the last iteration, or the state at
  the exception and the exception.
\<close>

fun for_each :: "('a \<Rightarrow> 's \<Rightarrow> 's \<times> py_error option) \<Rightarrow> 'a list \<Rightarrow> 's \<Rightarrow> 's \<times> py_error option" where
  "for_each stmt [] s = (s, None)"
| "for_each stmt (x # xs) s =
     (case stmt x s of
        (s', None) \<Rightarrow> for_each stmt xs s'
      | (s', Some err) \<Rightarrow> (s', Some err))"

subsection \<open>Role differentials\<close>

text \<open>
  Lines 328-340, the body of the loop over the role groups of one match. \<open>df\<close> is the
  table that the \<open>groupby\<close> iterates, \<open>role_group\<close> the positions of the rows of the group
  in it, \<open>players\<close> the address of the table written to. \<open>p1['totalGold']\<close> raises
  \<open>KeyError\<close> without such a column, and the subtraction raises \<open>TypeError\<close> on a string.
\<close>

definition role_pair ::
  "string \<Rightarrow> string \<Rightarrow> data_frame \<Rightarrow> nat \<Rightarrow> nat list \<Rightarrow> store \<Rightarrow> store \<times> py_error option" where
  "role_pair value_col out_col df players role_group st =
     (if length role_group \<noteq> 2 then (st, None)
      else
        (let p1 = role_group ! 0; p2 = role_group ! 1 in
         case map_of (columns df) value_col of
           None \<Rightarrow> (st, Some KeyError)
         | Some col \<Rightarrow>
             (case (number (col ! p1), number (col ! p2)) of
                (Some v1, Some v2) \<Rightarrow>
                  (let diff = v1 - v2;
                       half_diff = \<bar>diff\<bar> / 2
                   in if diff > 0 then
                        (loc_setitem
                           (loc_setitem st players (index df ! p1) out_col (CFloat half_diff))
                           players (index df ! p2) out_col (CFloat (- half_diff)), None)
                      else
                        (loc_setitem
                           (loc_setitem st players (index df ! p1) out_col (CFloat (- half_diff)))
                           players (index df ! p2) out_col (CFloat half_diff), None))
              | _ \<Rightarrow> (st, Some TypeError))))"

text \<open>Lines 326-340: the body of the loop over the matches.\<close>

definition match_roles ::
  "string \<Rightarrow> string \<Rightarrow> data_frame \<Rightarrow> nat \<Rightarrow> nat list \<Rightarrow> store \<Rightarrow> store \<times> py_error option" where
  "match_roles value_col out_col df players match_df st =
     (case groupby df match_df ''teamPosition'' of
        Inl err \<Rightarrow> (st, Some err)
      | Inr role_groups \<Rightarrow> for_each (role_pair value_col out_col df players) role_groups st)"

text \<open>
  The six transforms differ in the column they read and the column they write only;
  \<open>role_diff\<close> is their common text, with the two names as parameters. It takes the store
  and the address of the argument and gives the store at the end with the address of the
  table returned, or the exception. The groups are those of the table as it is when the
  loop starts, and the loop does not write to a column that it reads.
\<close>

definition role_diff ::
  "string \<Rightarrow> string \<Rightarrow> store \<Rightarrow> nat \<Rightarrow> store \<times> (py_error + nat)" where
  "role_diff value_col out_col st p =
     (let (st1, players) = copy st p;
          st2 = setitem st1 players out_col (CFloat 0);
          df = st2 ! players
      in case groupby df [0 ..< length (index df)] ''match_id'' of
           Inl err \<Rightarrow> (st2, Inl err)
         | Inr match_groups \<Rightarrow>
             (case for_each (match_roles value_col out_col df players) match_groups st2 of
                (st3, Some err) \<Rightarrow> (st3, Inl err)
              | (st3, None) \<Rightarrow> (st3, Inr players)))"

definition role_gold_diff :: "store \<Rightarrow> nat \<Rightarrow> store \<times> (py_error + nat)" where
  "role_gold_diff = role_diff ''totalGold'' ''roleGoldDiff''"

definition role_xp_diff :: "store \<Rightarrow> nat \<Rightarrow> store \<times> (py_error + nat)" where
  "role_xp_diff = role_diff ''xp'' ''roleXpDiff''"

definition role_cs_diff :: "store \<Rightarrow> nat \<Rightarrow> store \<times> (py_error + nat)" where
  "role_cs_diff = role_diff ''totalMinionsKilled'' ''roleCsDiff''"

definition role_kill_diff :: "store \<Rightarrow> nat \<Rightarrow> store \<times> (py_error + nat)" where
  "role_kill_diff = role_diff ''kills_14'' ''roleKillDiff''"

definition role_deaths_diff :: "store \<Rightarrow> nat \<Rightarrow> store \<times> (py_error + nat)" where
  "role_deaths_diff = role_diff ''deaths_14'' ''roleDeathsDiff''"

definition role_vision_diff :: "store \<Rightarrow> nat \<Rightarrow> store \<times> (py_error + nat)" where
  "role_vision_diff = role_diff ''wards_placed'' ''roleVisionDiff''"

text \<open>Each transform with the column it reads and the column it writes.\<close>

definition role_transforms ::
  "((store \<Rightarrow> nat \<Rightarrow> store \<times> (py_error + nat)) \<times> string \<times> string) list" where
  "role_transforms =
     [(role_gold_diff, ''totalGold'', ''roleGoldDiff''),
      (role_xp_diff, ''xp'', ''roleXpDiff''),
      (role_cs_diff, ''totalMinionsKilled'', ''roleCsDiff''),
      (role_kill_diff, ''kills_14'', ''roleKillDiff''),
      (role_deaths_diff, ''deaths_14'', ''roleDeathsDiff''),
      (role_vision_diff, ''wards_placed'', ''roleVisionDiff'')]"

subsection \<open>The payloads of a match\<close>

text \<open>
  The fields that \<open>get_14_min_stats\<close> reads. A field read with \<open>.get\<close> is an option
  (\<open>None\<close>: the key is absent); a field read with \<open>[...]\<close> on a dictionary that may lack
  it is an option too, and its absence raises \<open>KeyError\<close>. The fields of a participant
  and of a participant frame are those every element of the payload carries.
\<close>

record participant =
  p_participantId :: int
  p_championName :: string
  p_teamId :: int
  p_firstBloodKill :: bool
  p_teamPosition :: string
  p_win :: bool

record participant_frame =
  f_totalGold :: int
  f_xp :: int
  f_level :: int
  f_minionsKilled :: int
  f_jungleMinionsKilled :: int

record event =
  timestamp :: "int option"
  e_type :: "string option"
  killerId :: "int option"
  victimId :: "int option"
  assistingParticipantIds :: "int list option"
  buildingType :: "string option"
  killerTeamId :: "int option"
  monsterType :: "string option"
  wardType :: "string option"
  creatorId :: "int option"

text \<open>
  \<open>participantFrames\<close> is a JSON object: its keys are strings, kept in the order of the
  payload.
\<close>

record frame =
  participantFrames :: "(string \<times> participant_frame) list option"
  events :: "event list option"

record match_data =
  matchId :: string
  queueId :: "int option"
  gameVersion :: "string option"
  participants :: "participant list"

subsection \<open>Integers from strings\<close>

text \<open>
  \<open>int(id)\<close> on a string whose characters are code points below 256: surrounding
  whitespace is dropped, a sign may come first, and the rest is decimal digits, single
  underscores allowed between two digits. The whitespace that \<open>int\<close> drops is tab, line
  feed, vertical tab, form feed, carriage return and space, and of the other code points
  U+0085 and U+00A0; the separators U+001C to U+001F are not dropped. More than 4300 digits
  are refused (the default \<open>sys.get_int_max_str_digits()\<close>). On any other string \<open>int\<close>
  raises \<open>ValueError\<close> (\<open>None\<close> here).
\<close>

definition is_space :: "char \<Rightarrow> bool" where
  "is_space c =
     (let n = (of_char c :: nat) in (9 \<le> n \<and> n \<le> 13) \<or> n = 32 \<or> n = 133 \<or> n = 160)"

definition is_digit :: "char \<Rightarrow> bool" where
  "is_digit c = (let n = (of_char c :: nat) in 48 \<le> n \<and> n \<le> 57)"

definition digit_val :: "char \<Rightarrow> int" where
  "digit_val c = int (of_char c) - 48"

definition strip :: "string \<Rightarrow> string" where
  "strip s = rev (dropWhile is_space (rev (dropWhile is_space s)))"

fun parse_digits :: "string \<Rightarrow> bool \<Rightarrow> int \<Rightarrow> int option" where
  "parse_digits [] prev_digit acc = (if prev_digit then Some acc else None)"
| "parse_digits (c # cs) prev_digit acc =
     (if is_digit c then parse_digits cs True (10 * acc + digit_val c)
      else if c = CHR ''_'' \<and> prev_digit then parse_digits cs False acc
      else None)"

definition py_int :: "string \<Rightarrow> int option" where
  "py_int s =
     (case strip s of
        [] \<Rightarrow> None
      | c # cs \<Rightarrow>
          if length (filter is_digit (c # cs)) > 4300 then None
          else if c = CHR ''-'' then map_option uminus (parse_digits cs False 0)
          else if c = CHR ''+'' then parse_digits cs False 0
          else parse_digits (c # cs) False 0)"

subsection \<open>Event counters\<close>

text \<open>
  The eight \<open>defaultdict(int)\<close> of lines 176-183: a total function, \<open>0\<close> on a key never
  incremented. \<open>wards_placed\<close> is indexed by \<open>event.get('creatorId')\<close>, which may be
  \<open>None\<close>.
\<close>

record counters =
  d_kills_14 :: "int \<Rightarrow> int"
  d_deaths_14 :: "int \<Rightarrow> int"
  d_assists_14 :: "int \<Rightarrow> int"
  d_plates_taken :: "int \<Rightarrow> int"
  d_towers_killed :: "int \<Rightarrow> int"
  d_dragons :: "int \<Rightarrow> int"
  d_horde_kills :: "int \<Rightarrow> int"
  d_wards_placed :: "int option \<Rightarrow> int"

definition counters0 :: counters where
  "counters0 =
     \<lparr>d_kills_14 = (\<lambda>k. 0), d_deaths_14 = (\<lambda>k. 0), d_assists_14 = (\<lambda>k. 0),
      d_plates_taken = (\<lambda>k. 0), d_towers_killed = (\<lambda>k. 0), d_dragons = (\<lambda>k. 0),
      d_horde_kills = (\<lambda>k. 0), d_wards_placed = (\<lambda>k. 0)\<rparr>"

text \<open>\<open>d[k] += 1\<close>.\<close>

definition bump :: "('k \<Rightarrow> int) \<Rightarrow> 'k \<Rightarrow> ('k \<Rightarrow> int)" where
  "bump d k = d(k := d k + 1)"

text \<open>\<open>if x: d[x] += 1\<close>, where \<open>x\<close> comes from \<open>.get\<close>: \<open>None\<close> and \<open>0\<close> are false.\<close>

definition bump_if :: "(int \<Rightarrow> int) \<Rightarrow> int option \<Rightarrow> (int \<Rightarrow> int)" where
  "bump_if d x = (case x of None \<Rightarrow> d | Some k \<Rightarrow> if k \<noteq> 0 then bump d k else d)"

text \<open>
  Lines 192-229 for one event of type \<open>ty\<close>: five \<open>if\<close> statements, one after the other.
\<close>

definition count_event :: "string \<Rightarrow> event \<Rightarrow> counters \<Rightarrow> counters" where
  "count_event ty e c =
     (let c1 = (if ty = ''CHAMPION_KILL'' then
                  (let assist = (case assistingParticipantIds e of None \<Rightarrow> [] | Some l \<Rightarrow> l)
                   in c\<lparr>d_kills_14 := bump_if (d_kills_14 c) (killerId e),
                        d_deaths_14 := bump_if (d_deaths_14 c) (victimId e),
                        d_assists_14 := fold (\<lambda>aid d. bump d aid) assist (d_assists_14 c)\<rparr>)
                else c);
          c2 = (if ty = ''TURRET_PLATE_DESTROYED'' then
                  c1\<lparr>d_plates_taken := bump_if (d_plates_taken c1) (killerId e)\<rparr>
                else c1);
          c3 = (if ty = ''BUILDING_KILL'' \<and> buildingType e = Some ''TOWER_BUILDING'' then
                  c2\<lparr>d_towers_killed := bump_if (d_towers_killed c2) (killerId e)\<rparr>
                else c2);
          c4 = (if ty = ''ELITE_MONSTER_KILL'' then
                  (case killerTeamId e of
                     None \<Rightarrow> c3
                   | Some team_id \<Rightarrow>
                       if team_id \<noteq> 0 then
                         (if monsterType e = Some ''DRAGON'' then
                            c3\<lparr>d_dragons := bump (d_dragons c3) team_id\<rparr>
                          else if monsterType e = Some ''HORDE'' then
                            c3\<lparr>d_horde_kills := bump (d_horde_kills c3) team_id\<rparr>
                          else c3)
                       else c3)
                else c3);
          c5 = (if ty = ''WARD_PLACED'' then
                  (if wardType e \<in> set [Some ''YELLOW_TRINKET'', Some ''BLUE_TRINKET'',
                                         Some ''CONTROL_WARD''] then
                     c4\<lparr>d_wards_placed := bump (d_wards_placed c4) (creatorId e)\<rparr>
                   else c4)
                else c4)
      in c5)"

text \<open>\<open>event.get('timestamp', 0)\<close>.\<close>

definition event_time :: "event \<Rightarrow> int" where
  "event_time e = (case timestamp e of None \<Rightarrow> 0 | Some t \<Rightarrow> t)"

text \<open>
  Lines 188-229, the body of the loop over the events: an event after 840000 ms is skipped
  before its type is read; \<open>event['type']\<close> raises \<open>KeyError\<close> on an event without type.
\<close>

definition count_one :: "event \<Rightarrow> counters \<Rightarrow> py_error + counters" where
  "count_one e c = (case e_type e of None \<Rightarrow> Inl KeyError | Some ty \<Rightarrow> Inr (count_event ty e c))"

definition process_event :: "event \<Rightarrow> counters \<Rightarrow> py_error + counters" where
  "process_event e c = (let t = event_time e in if t > 840000 then Inr c else count_one e c)"

fun process_events :: "event list \<Rightarrow> counters \<Rightarrow> py_error + counters" where
  "process_events [] c = Inr c"
| "process_events (e # es) c =
     (case process_event e c of Inl err \<Rightarrow> Inl err | Inr c' \<Rightarrow> process_events es c')"

text \<open>\<open>frame.get('events', [])\<close>.\<close>

definition frame_events :: "frame \<Rightarrow> event list" where
  "frame_events fr = (case events fr of None \<Rightarrow> [] | Some es \<Rightarrow> es)"

fun process_frames :: "frame list \<Rightarrow> counters \<Rightarrow> py_error + counters" where
  "process_frames [] c = Inr c"
| "process_frames (fr # frs) c =
     (case process_events (frame_events fr) c of
        Inl err \<Rightarrow> Inl err
      | Inr c' \<Rightarrow> process_frames frs c')"

text \<open>Lines 186-229: \<open>for frame in frames[:15]\<close>, from the empty counters.\<close>

definition aggregate_events :: "frame list \<Rightarrow> py_error + counters" where
  "aggregate_events frames = process_frames (take 15 frames) counters0"

subsection \<open>The snapshot extractor\<close>

text \<open>\<open>game_version.startswith(prefix)\<close>.\<close>

definition startswith :: "string \<Rightarrow> string \<Rightarrow> bool" where
  "startswith s pre = (take (length pre) s = pre)"

text \<open>
  Lines 162-165: the loop over \<open>frames[14]['participantFrames'].items()\<close>, each entry
  with its \<open>participantId = int(id)\<close>.
\<close>

fun frame14_data ::
  "(string \<times> participant_frame) list \<Rightarrow> py_error + (int \<times> participant_frame) list" where
  "frame14_data [] = Inr []"
| "frame14_data ((k, d) # kds) =
     (case py_int k of
        None \<Rightarrow> Inl ValueError
      | Some n \<Rightarrow> (case frame14_data kds of Inl err \<Rightarrow> Inl err | Inr rest \<Rightarrow> Inr ((n, d) # rest)))"

text \<open>
  Line 170, \<open>participants.merge(minute14_df, on='participantId')\<close>: the inner join, in
  the order of the left table; a left row meets every right row with its key.
\<close>

definition merge_on_participantId ::
  "participant list \<Rightarrow> (int \<times> participant_frame) list \<Rightarrow> (participant \<times> participant_frame) list" where
  "merge_on_participantId ps f14 =
     concat (map (\<lambda>p. map (\<lambda>kd. (p, snd kd)) (filter (\<lambda>kd. fst kd = p_participantId p) f14)) ps)"

text \<open>Lines 172-174 and 232-257: the columns of one row of the result.\<close>

definition make_row :: "match_data \<Rightarrow> counters \<Rightarrow> participant \<times> participant_frame \<Rightarrow> snapshot" where
  "make_row md c pd =
     (let p = fst pd; d = snd pd; pid = p_participantId p in
      \<lparr>match_id = matchId md,
       participantId = pid,
       championName = p_championName p,
       totalGold = f_totalGold d,
       goldPerMinute = real_of_int (f_totalGold d) / 14,
       minionsKilled = f_minionsKilled d,
       jungleMinionsKilled = f_jungleMinionsKilled d,
       totalMinionsKilled = f_minionsKilled d + f_jungleMinionsKilled d,
       csPerMinute = real_of_int (f_minionsKilled d + f_jungleMinionsKilled d) / 14,
       xp = f_xp d,
       level = f_level d,
       wards_placed = d_wards_placed c (Some pid),
       kills_14 = d_kills_14 c pid,
       deaths_14 = d_deaths_14 c pid,
       assists_14 = d_assists_14 c pid,
       platesTaken_14 = d_plates_taken c pid,
       towersKilled_14 = d_towers_killed c pid,
       firstBloodKill = (if p_firstBloodKill p then 1 else 0),
       teamDragonKills_14 = d_dragons c (p_teamId p),
       teamHordeKills_14 = d_horde_kills c (p_teamId p),
       teamId = p_teamId p,
       teamPosition = (if p_teamPosition p = ''UTILITY'' then ''SUPPORT'' else p_teamPosition p),
       win = (if p_win p then 1 else 0)\<rparr>)"

text \<open>
  \<open>get_14_min_stats\<close> (lines 133-257). The result is the list of the rows of the returned
  table; \<open>pd.DataFrame()\<close> is the table without rows. \<open>frames\<close> is
  \<open>timeline_data['info']['frames']\<close>. Selecting the six columns of an empty participant
  list raises \<open>KeyError\<close> (line 152), and so does the merge with an empty frame-14 table,
  which has no \<open>participantId\<close> column (line 170).
\<close>

definition get_14_min_stats ::
  "string \<Rightarrow> match_data \<Rightarrow> frame list \<Rightarrow> py_error + snapshot list" where
  "get_14_min_stats match md frames =
     (let queue_id = queueId md;
          game_version = (case gameVersion md of None \<Rightarrow> [] | Some v \<Rightarrow> v)
      in if startswith game_version ''15.9'' then Inr []
         else if queue_id \<noteq> Some 420 then Inr []
         else if participants md = [] then Inl KeyError
         else if length frames \<le> 14 then Inr []
         else case participantFrames (frames ! 14) of
                None \<Rightarrow> Inr []
              | Some pfs \<Rightarrow>
                  (case frame14_data pfs of
                     Inl err \<Rightarrow> Inl err
                   | Inr minute14 \<Rightarrow>
                       if minute14 = [] then Inl KeyError
                       else
                         (let players = merge_on_participantId (participants md) minute14 in
                          case aggregate_events frames of
                            Inl err \<Rightarrow> Inl err
                          | Inr c \<Rightarrow> Inr (map (make_row md c) players))))"

text \<open>
  A match that the three eligibility filters accept: not on the excluded patch, in queue
  420, with a frame 14 that has participant frames.
\<close>

definition eligible :: "match_data \<Rightarrow> frame list \<Rightarrow> bool" where
  "eligible md frames =
     (\<not> startswith (case gameVersion md of None \<Rightarrow> [] | Some v \<Rightarrow> v) ''15.9''
      \<and> queueId md = Some 420
      \<and> 14 < length frames
      \<and> participantFrames (frames ! 14) \<noteq> None)"

text \<open>
  The events of the aggregation window in the words of the specification: the events of
  frames 0 to 14 whose timestamp (0 when absent) is at most 840000 ms, in order. Counting
  them one after the other is \<open>count_all\<close>.
\<close>

definition window_events :: "frame list \<Rightarrow> event list" where
  "window_events frames =
     filter (\<lambda>e. (case timestamp e of None \<Rightarrow> 0 | Some t \<Rightarrow> t) \<le> 840000)
       (concat (map (\<lambda>fr. case events fr of None \<Rightarrow> [] | Some es \<Rightarrow> es) (take 15 frames)))"

fun count_all :: "event list \<Rightarrow> counters \<Rightarrow> py_error + counters" where
  "count_all [] c = Inr c"
| "count_all (e # es) c =
     (case count_one e c of Inl err \<Rightarrow> Inl err | Inr c' \<Rightarrow> count_all es c')"

text \<open>
  The \<open>CHAMPION_KILL\<close> events of the window, and what the specification has a
  participant receive from them: one kill for each event that names it as killer and one
  death for each event that names it as victim, the id 0 standing for nobody, and one
  assist for each time an event lists it.
\<close>

definition champion_kills :: "frame list \<Rightarrow> event list" where
  "champion_kills frames = filter (\<lambda>e. e_type e = Some ''CHAMPION_KILL'') (window_events frames)"

definition kill_count :: "frame list \<Rightarrow> int \<Rightarrow> int" where
  "kill_count frames k =
     (if k = 0 then 0 else int (length (filter (\<lambda>e. killerId e = Some k) (champion_kills frames))))"

definition death_count :: "frame list \<Rightarrow> int \<Rightarrow> int" where
  "death_count frames v =
     (if v = 0 then 0 else int (length (filter (\<lambda>e. victimId e = Some v) (champion_kills frames))))"

definition assist_count :: "frame list \<Rightarrow> int \<Rightarrow> int" where
  "assist_count frames a =
     sum_list (map (\<lambda>e. int (count_list
                    (case assistingParticipantIds e of None \<Rightarrow> [] | Some l \<Rightarrow> l) a))
                (champion_kills frames))"

subsection \<open>Example data\<close>

text \<open>A \<open>CHAMPION_KILL\<close> event, for the examples.\<close>

definition kill_event :: "int \<Rightarrow> int option \<Rightarrow> int option \<Rightarrow> int list \<Rightarrow> event" where
  "kill_event t killer victim assist =
     \<lparr>timestamp = Some t, e_type = Some ''CHAMPION_KILL'', killerId = killer, victimId = victim,
      assistingParticipantIds = Some assist, buildingType = None, killerTeamId = None,
      monsterType = None, wardType = None, creatorId = None\<rparr>"

text \<open>
  A ranked match with participants 1 to 10 and a timeline of 15 frames whose frame 14 has
  the given keys in \<open>participantFrames\<close>.
\<close>

definition example_participant :: "int \<Rightarrow> participant" where
  "example_participant i =
     \<lparr>p_participantId = i, p_championName = ''Ahri'',
      p_teamId = (if i \<le> 5 then 100 else 200), p_firstBloodKill = False,
      p_teamPosition = ''MIDDLE'', p_win = (i \<le> 5)\<rparr>"

definition example_match :: match_data where
  "example_match =
     \<lparr>matchId = ''NA1_1'', queueId = Some 420, gameVersion = Some ''14.8.1'',
      participants = map example_participant [1, 2, 3, 4, 5, 6, 7, 8, 9, 10]\<rparr>"

definition example_pframe :: participant_frame where
  "example_pframe =
     \<lparr>f_totalGold = 5000, f_xp = 6000, f_level = 9, f_minionsKilled = 100,
      f_jungleMinionsKilled = 4\<rparr>"

definition example_timeline :: "string list \<Rightarrow> frame list" where
  "example_timeline keys =
     replicate 14 \<lparr>participantFrames = None, events = None\<rparr> @
     [\<lparr>participantFrames = Some (map (\<lambda>k. (k, example_pframe)) keys), events = None\<rparr>]"

text \<open>
  A timeline of 16 frames: frames 0 to 13 without data, frame 14 with the participant
  frames of the given keys and the events \<open>evs14\<close>, frame 15 with the events \<open>evs15\<close>.
\<close>

definition example_timeline_with :: "string list \<Rightarrow> event list \<Rightarrow> event list \<Rightarrow> frame list" where
  "example_timeline_with keys evs14 evs15 =
     replicate 14 \<lparr>participantFrames = None, events = None\<rparr> @
     [\<lparr>participantFrames = Some (map (\<lambda>k. (k, example_pframe)) keys), events = Some evs14\<rparr>,
      \<lparr>participantFrames = None, events = Some evs15\<rparr>]"

definition example_keys :: "string list" where
  "example_keys = [''10'', ''9'', ''8'', ''7'', ''6'', ''5'', ''4'', ''3'', ''2'', ''1'']"

text \<open>
  A players table with the three columns that \<open>role_gold_diff\<close> reads, all rows in the
  match \<open>NA1_1\<close>: the index labels, and the \<open>teamPosition\<close> and \<open>totalGold\<close> of each row.
\<close>

definition example_players :: "int list \<Rightarrow> (string \<times> int) list \<Rightarrow> data_frame" where
  "example_players labels rows =
     \<lparr>index = labels,
      columns = [(''match_id'', map (\<lambda>r. CStr ''NA1_1'') rows),
                 (''teamPosition'', map (\<lambda>r. CStr (fst r)) rows),
                 (''totalGold'', map (\<lambda>r. CInt (snd r)) rows)]\<rparr>"

section \<open>Properties\<close>

subsection \<open>Bounded fetching\<close>

lemma count_429_Suc_left:
  "i < j \<Longrightarrow>
   count_429 rs i j = (if status_code (rs i) = 429 then 1 else 0) + count_429 rs (Suc i) j"
  by (simp add: count_429_def upt_conv_Cons)

lemma count_429_same: "count_429 rs i i = 0"
  by (simp add: count_429_def)

lemma first_decisive_range: "first_decisive k rs i = Some n \<Longrightarrow> i \<le> n \<and> n < i + k"
proof (induction k arbitrary: i)
  case 0
  then show ?case by simp
next
  case (Suc k)
  show ?case
  proof (cases "decisive (rs i)")
    case True
    with Suc.prems show ?thesis by simp
  next
    case False
    with Suc.prems have "first_decisive k rs (Suc i) = Some n" by simp
    from Suc.IH [OF this] show ?thesis by simp
  qed
qed

lemma safe_get_loop_char:
  "safe_get_loop k rs s =
     (case first_decisive k rs (requests s) of
        None \<Rightarrow> (\<lparr>requests = requests s + k,
                  slept = slept s + 10 * count_429 rs (requests s) (requests s + k)\<rparr>, Inr None)
      | Some i \<Rightarrow> (\<lparr>requests = i + 1, slept = slept s + 10 * count_429 rs (requests s) i\<rparr>,
                   if status_code (rs i) = 200 then resp_json (rs i) else Inr None))"
proof (induction k arbitrary: s)
  case 0
  show ?case by (simp add: count_429_same)
next
  case (Suc k)
  show ?case
  proof (cases "decisive (rs (requests s))")
    case True
    then show ?thesis
      by (auto simp: decisive_def count_429_same Let_def)
  next
    case False
    have lt: "\<And>n. first_decisive k rs (Suc (requests s)) = Some n \<Longrightarrow> requests s < n"
      using first_decisive_range by fastforce
    from False show ?thesis
      by (auto simp: decisive_def Let_def Suc count_429_Suc_left lt split: option.splits)
  qed
qed

lemma safe_get_char:
  "safe_get rs k =
     (case first_decisive k rs 0 of
        None \<Rightarrow> (\<lparr>requests = k, slept = 10 * count_429 rs 0 k\<rparr>, Inr None)
      | Some i \<Rightarrow> (\<lparr>requests = i + 1, slept = 10 * count_429 rs 0 i\<rparr>,
                   if status_code (rs i) = 200 then resp_json (rs i) else Inr None))"
  by (simp add: safe_get_def safe_get_loop_char net0_def split: option.splits)

lemma safe_get_requests: "requests (fst (safe_get rs k)) \<le> k"
  by (auto simp: safe_get_char split: option.splits dest!: first_decisive_range)

text \<open>
  \<open>_safe_get\<close> with three attempts ends after at most three requests, for every
  sequence of responses. Its outcome is fixed by the first response with status 200, 401,
  403 or 404 among the three: the \<open>resp.json()\<close> of a 200 (an exception when the body
  is not JSON), null for a 401, 403 or 404, and null after three requests when there is
  none. It sleeps 10 seconds for each 429 it met,
  and for nothing else: a 429 and any other status such as 500 use up one attempt each.
\<close>

lemma safe_get_three_attempts:
  "fetch_match_data srv base_url m = safe_get (srv (base_url @ ''/'' @ m)) 3
   \<and> fetch_timeline_data srv base_url m = safe_get (srv (base_url @ ''/'' @ m @ ''/timeline'')) 3
   \<and> requests (fst (safe_get rs 3)) \<le> 3
   \<and> safe_get rs 3 =
       (case first_decisive 3 rs 0 of
          None \<Rightarrow> (\<lparr>requests = 3, slept = 10 * count_429 rs 0 3\<rparr>, Inr None)
        | Some i \<Rightarrow> (\<lparr>requests = i + 1, slept = 10 * count_429 rs 0 i\<rparr>,
                     if status_code (rs i) = 200 then resp_json (rs i) else Inr None))"
  using safe_get_requests [of rs 3] safe_get_char [of rs 3]
  by (simp add: fetch_match_data_def fetch_timeline_data_def)

lemma safe_get_three_attempts_examples:
  "fetch_match_data (\<lambda>url i. \<lparr>status_code = 429, body = None\<rparr>) ''https://h'' ''NA1_1''
     = (\<lparr>requests = 3, slept = 30\<rparr>, Inr None)
   \<and> fetch_timeline_data (\<lambda>url i. \<lparr>status_code = 500, body = None\<rparr>) ''https://h'' ''NA1_1''
     = (\<lparr>requests = 3, slept = 0\<rparr>, Inr None)
   \<and> safe_get (\<lambda>i. if i = 0 then \<lparr>status_code = 429, body = None\<rparr>
                     else if i = 1 then \<lparr>status_code = 500, body = None\<rparr>
                     else \<lparr>status_code = 200, body = Some (JDict [])\<rparr>) 3
     = (\<lparr>requests = 3, slept = 10\<rparr>, Inr (Some (JDict [])))
   \<and> safe_get (\<lambda>i. if i = 0 then \<lparr>status_code = 429, body = None\<rparr>
                     else \<lparr>status_code = 404, body = Some (JDict [])\<rparr>) 3
     = (\<lparr>requests = 2, slept = 10\<rparr>, Inr None)"
  using safe_get_three_attempts [of "\<lambda>url i. \<lparr>status_code = 429, body = None\<rparr>" "''https://h''" "''NA1_1''"
          "\<lambda>i. \<lparr>status_code = 429, body = None\<rparr>"]
        safe_get_three_attempts [of "\<lambda>url i. \<lparr>status_code = 500, body = None\<rparr>" "''https://h''" "''NA1_1''"
          "\<lambda>i. \<lparr>status_code = 500, body = None\<rparr>"]
        safe_get_three_attempts [of "\<lambda>url i. \<lparr>status_code = 500, body = None\<rparr>" "''https://h''" "''NA1_1''"
          "\<lambda>i. if i = 0 then \<lparr>status_code = 429, body = None\<rparr>
                     else if i = 1 then \<lparr>status_code = 500, body = None\<rparr>
                     else \<lparr>status_code = 200, body = Some (JDict [])\<rparr>"]
        safe_get_three_attempts [of "\<lambda>url i. \<lparr>status_code = 500, body = None\<rparr>" "''https://h''" "''NA1_1''"
          "\<lambda>i. if i = 0 then \<lparr>status_code = 429, body = None\<rparr>
                     else \<lparr>status_code = 404, body = Some (JDict [])\<rparr>"]
  by (simp add: numeral_3_eq_3 decisive_def count_429_def resp_json_def upt_rec)

text \<open>
  C10. \<open>fetch_match_data\<close> and \<open>fetch_timeline_data\<close> do not return on every sequence
  of responses: on a 200 whose body is not JSON the unguarded \<open>resp.json()\<close> of line 126
  raises \<open>JSONDecodeError\<close> after the first request, instead of returning the parsed
  JSON or null. \<open>fetch_with_retry\<close> guards the same call (lines 94-98).
\<close>

theorem safe_get_unparseable_200:
  "fetch_match_data (\<lambda>url i. \<lparr>status_code = 200, body = None\<rparr>) ''https://h'' ''NA1_1''
     = (\<lparr>requests = 1, slept = 0\<rparr>, Inl JSONDecodeError)
   \<and> fetch_timeline_data (\<lambda>url i. \<lparr>status_code = 200, body = None\<rparr>) ''https://h'' ''NA1_1''
     = (\<lparr>requests = 1, slept = 0\<rparr>, Inl JSONDecodeError)
   \<and> fetch_with_retry (\<lambda>i. \<lparr>status_code = 200, body = None\<rparr>) net0
     = Some (\<lparr>requests = 1, slept = 0\<rparr>, Inr None)"
proof -
  have "fetch_with_retry (\<lambda>i. \<lparr>status_code = 200, body = None\<rparr>) net0
     = Some (\<lparr>requests = 1, slept = 0\<rparr>, Inr None)"
    by (subst fetch_with_retry.simps) (simp add: net0_def)
  then show ?thesis
    by (simp add: fetch_match_data_def fetch_timeline_data_def safe_get_def net0_def
          numeral_3_eq_3 resp_json_def)
qed

subsection \<open>Unbounded fetching\<close>

lemma fetch_with_retry_again:
  "retryable (rs (requests s)) \<Longrightarrow>
   fetch_with_retry rs s =
     fetch_with_retry rs (s\<lparr>requests := requests s + 1, slept := slept s + 10\<rparr>)"
  by (subst fetch_with_retry.simps) (auto simp: retryable_def Let_def)

lemma fetch_with_retry_stop:
  "\<not> retryable (rs (requests s)) \<Longrightarrow>
   fetch_with_retry rs s = Some (s\<lparr>requests := requests s + 1\<rparr>, fetch_result (rs (requests s)))"
  by (subst fetch_with_retry.simps)
     (auto simp: retryable_def fetch_result_def Let_def split: option.splits json.splits)

lemma fetch_with_retry_after:
  "(\<forall>j<n. retryable (rs (requests s + j))) \<Longrightarrow> \<not> retryable (rs (requests s + n)) \<Longrightarrow>
   fetch_with_retry rs s =
     Some (\<lparr>requests = requests s + n + 1, slept = slept s + 10 * n\<rparr>,
           fetch_result (rs (requests s + n)))"
proof (induction n arbitrary: s)
  case 0
  then show ?case by (simp add: fetch_with_retry_stop)
next
  case (Suc n)
  let ?s = "s\<lparr>requests := requests s + 1, slept := slept s + 10\<rparr>"
  from Suc.prems have r0: "retryable (rs (requests s))" by (metis add.right_neutral zero_less_Suc)
  have a: "\<forall>j<n. retryable (rs (requests ?s + j))"
  proof (intro allI impI)
    fix j assume "j < n"
    then have "Suc j < Suc n" by simp
    with Suc.prems(1) have "retryable (rs (requests s + Suc j))" by blast
    then show "retryable (rs (requests ?s + j))" by simp
  qed
  have b: "\<not> retryable (rs (requests ?s + n))" using Suc.prems(2) by simp
  show ?case
    using Suc.IH [OF a b] by (simp add: fetch_with_retry_again [of rs s, OF r0])
qed

lemma fetch_with_retry_forever:
  assumes "\<forall>j. retryable (rs (requests s + j))"
  shows "fetch_with_retry rs s = None"
proof (rule ccontr)
  assume "fetch_with_retry rs s \<noteq> None"
  then obtain y where y: "fetch_with_retry rs s = Some y" by auto
  have "\<not> (\<forall>j. retryable (rs (requests s + j)))"
    using y
  proof (induction rule: fetch_with_retry.raw_induct [rotated 1, consumes 1])
    case (1 f rs s y)
    show ?case
    proof
      assume all: "\<forall>j. retryable (rs (requests s + j))"
      then have r0: "retryable (rs (requests s))" by (metis add.right_neutral)
      let ?s = "s\<lparr>requests := requests s + 1, slept := slept s + 10\<rparr>"
      from 1(2) r0 have "f rs ?s = Some y"
        by (auto simp: retryable_def Let_def split: option.splits)
      from 1(1) [OF this] obtain j where "\<not> retryable (rs (requests ?s + j))" by blast
      then have "\<not> retryable (rs (requests s + Suc j))" by simp
      with all show False by blast
    qed
  qed
  with assms show False by blast
qed

text \<open>
  C9, as the code has it. \<open>fetch_with_retry\<close> parses the body before it looks at the status.
  It goes round again, after a sleep of 10 seconds and with the same request, exactly on a
  response whose body parses and whose status is 429, any number of times: when \<open>n\<close> such
  responses are followed by another one it returns after \<open>n + 1\<close> requests and \<open>10 * n\<close>
  seconds of sleep, and when every response is such it never returns. The response that
  ends the loop gives null when its body does not parse, whatever the status; with a body
  that parses, a 200 gives the body when it is a JSON object, and every status other than
  200 and 429 (401, 403 and 404 among them) gives null without an exception.
\<close>

theorem fetch_with_retry_contract:
  "((\<forall>j<n. retryable (rs j)) \<and> \<not> retryable (rs n) \<longrightarrow>
      fetch_with_retry rs net0 = Some (\<lparr>requests = n + 1, slept = 10 * n\<rparr>, fetch_result (rs n)))
   \<and> ((\<forall>j. retryable (rs j)) \<longrightarrow> fetch_with_retry rs net0 = None)
   \<and> (retryable resp \<longleftrightarrow> body resp \<noteq> None \<and> status_code resp = 429)
   \<and> (body resp = None \<longrightarrow> fetch_result resp = Inr None)
   \<and> (body resp = Some (JDict kvs) \<and> status_code resp = 200 \<longrightarrow>
        fetch_result resp = Inr (Some (JDict kvs)))
   \<and> (body resp \<noteq> None \<and> status_code resp \<noteq> 200 \<and> status_code resp \<noteq> 429 \<longrightarrow>
        fetch_result resp = Inr None)"
proof -
  have "(\<forall>j<n. retryable (rs j)) \<and> \<not> retryable (rs n) \<longrightarrow>
      fetch_with_retry rs net0 = Some (\<lparr>requests = n + 1, slept = 10 * n\<rparr>, fetch_result (rs n))"
    using fetch_with_retry_after [of n rs net0] by (simp add: net0_def)
  moreover have "(\<forall>j. retryable (rs j)) \<longrightarrow> fetch_with_retry rs net0 = None"
    using fetch_with_retry_forever [of rs net0] by (simp add: net0_def)
  moreover have "body resp = None \<longrightarrow> fetch_result resp = Inr None"
    by (simp add: fetch_result_def)
  moreover have "body resp = Some (JDict kvs) \<and> status_code resp = 200 \<longrightarrow>
        fetch_result resp = Inr (Some (JDict kvs))"
    by (simp add: fetch_result_def)
  moreover have "body resp \<noteq> None \<and> status_code resp \<noteq> 200 \<and> status_code resp \<noteq> 429 \<longrightarrow>
        fetch_result resp = Inr None"
    by (auto simp: fetch_result_def)
  ultimately show ?thesis by (simp add: retryable_def)
qed

theorem fetch_with_retry_contract_witness:
  "fetch_with_retry (\<lambda>i. if i < 2 then \<lparr>status_code = 429, body = Some (JDict [])\<rparr>
                          else \<lparr>status_code = 200, body = Some (JDict [(''info'', JNull)])\<rparr>) net0
     = Some (\<lparr>requests = 3, slept = 20\<rparr>, Inr (Some (JDict [(''info'', JNull)])))
   \<and> fetch_with_retry (\<lambda>i. \<lparr>status_code = 429, body = Some (JDict [])\<rparr>) net0 = None
   \<and> fetch_with_retry (\<lambda>i. \<lparr>status_code = 404, body = Some (JDict [])\<rparr>) net0
     = Some (\<lparr>requests = 1, slept = 0\<rparr>, Inr None)
   \<and> fetch_with_retry (\<lambda>i. \<lparr>status_code = 200, body = None\<rparr>) net0
     = Some (\<lparr>requests = 1, slept = 0\<rparr>, Inr None)"
  using fetch_with_retry_contract [of 2 "\<lambda>i. if i < 2 then \<lparr>status_code = 429, body = Some (JDict [])\<rparr>
                          else \<lparr>status_code = 200, body = Some (JDict [(''info'', JNull)])\<rparr>"
          "\<lparr>status_code = 200, body = Some (JDict [(''info'', JNull)])\<rparr>" "[(''info'', JNull)]"]
        fetch_with_retry_contract [of 0 "\<lambda>i. \<lparr>status_code = 429, body = Some (JDict [])\<rparr>"
          "\<lparr>status_code = 429, body = Some (JDict [])\<rparr>" "[]"]
        fetch_with_retry_contract [of 0 "\<lambda>i. \<lparr>status_code = 404, body = Some (JDict [])\<rparr>"
          "\<lparr>status_code = 404, body = Some (JDict [])\<rparr>" "[]"]
        fetch_with_retry_contract [of 0 "\<lambda>i. \<lparr>status_code = 200, body = None\<rparr>"
          "\<lparr>status_code = 200, body = None\<rparr>" "[]"]
  by (simp add: retryable_def)

text \<open>
  The claim as it is written fails on a 429 whose body is not JSON: the loop returns null
  after one request, without sleep and without a second request.
\<close>

theorem fetch_with_retry_429_unparseable:
  "fetch_with_retry (\<lambda>i. \<lparr>status_code = 429, body = None\<rparr>) net0
     = Some (\<lparr>requests = 1, slept = 0\<rparr>, Inr None)"
  by (subst fetch_with_retry.simps) (simp add: net0_def)

subsection \<open>The queue filter\<close>

text \<open>
  C8. A match whose \<open>queueId\<close> is not 420 gives the empty result, the same for any two
  timelines: the timeline is not read. (This holds on the excluded patch too.)
\<close>

theorem queue_filter_ignores_timeline:
  "queueId md \<noteq> Some 420 \<Longrightarrow>
   get_14_min_stats m md frames = Inr [] \<and>
   get_14_min_stats m md frames = get_14_min_stats m md frames'"
  by (simp add: get_14_min_stats_def Let_def)

theorem queue_filter_ignores_timeline_witness:
  "queueId \<lparr>matchId = ''NA1_1'', queueId = Some 440, gameVersion = Some ''14.8.1'',
             participants = []\<rparr> \<noteq> Some 420
   \<and> get_14_min_stats ''NA1_1''
        \<lparr>matchId = ''NA1_1'', queueId = Some 440, gameVersion = Some ''14.8.1'', participants = []\<rparr>
        [] = Inr []
   \<and> get_14_min_stats ''NA1_1''
        \<lparr>matchId = ''NA1_1'', queueId = Some 440, gameVersion = Some ''14.8.1'', participants = []\<rparr>
        [] =
     get_14_min_stats ''NA1_1''
        \<lparr>matchId = ''NA1_1'', queueId = Some 440, gameVersion = Some ''14.8.1'', participants = []\<rparr>
        (replicate 20 \<lparr>participantFrames = Some [], events = None\<rparr>)"
proof -
  let ?md = "\<lparr>matchId = ''NA1_1'', queueId = Some 440, gameVersion = Some ''14.8.1'',
              participants = []\<rparr>"
  have h: "queueId ?md \<noteq> Some 420" by simp
  note t = queue_filter_ignores_timeline [OF h, of "''NA1_1''" "[]"
      "replicate 20 \<lparr>participantFrames = Some [], events = None\<rparr>"]
  show ?thesis
    by (intro conjI h conjunct1 [OF t] conjunct2 [OF t])
qed

subsection \<open>The roster of the result\<close>

lemma one_match:
  "distinct (map fst xs) \<Longrightarrow> k \<in> fst ` set xs \<Longrightarrow> length (filter (\<lambda>kd. fst kd = k) xs) = 1"
proof (induction xs)
  case Nil
  then show ?case by simp
next
  case (Cons x xs)
  show ?case
  proof (cases "fst x = k")
    case True
    from Cons.prems(1) have "fst x \<notin> fst ` set xs" by simp
    with True have "\<forall>kd\<in>set xs. fst kd \<noteq> k" by blast
    then have "filter (\<lambda>kd. fst kd = k) xs = []"
      by (simp add: filter_empty_conv)
    with True show ?thesis by simp
  next
    case False
    with Cons show ?thesis by auto
  qed
qed

lemma length_merge_full:
  "distinct (map fst f14) \<Longrightarrow> p_participantId ` set ps \<subseteq> fst ` set f14 \<Longrightarrow>
   length (merge_on_participantId ps f14) = length ps"
  by (induction ps) (simp_all add: merge_on_participantId_def one_match)

lemma get_14_min_stats_eligible:
  assumes "eligible md frames" and "participantFrames (frames ! 14) = Some pfs"
    and "get_14_min_stats m md frames = Inr rows"
  shows "\<exists>minute14 c. frame14_data pfs = Inr minute14 \<and> aggregate_events frames = Inr c
    \<and> rows = map (make_row md c) (merge_on_participantId (participants md) minute14)"
  using assms
  by (auto simp: eligible_def get_14_min_stats_def Let_def split: if_splits sum.splits)

text \<open>
  C1, as the code has it. For a match that the eligibility filters accept and on which
  \<open>get_14_min_stats\<close> raises nothing, the rows are the inner join of the summary
  participants with the entries of frame 14 on \<open>participantId\<close>: one row for each pair
  with equal ids, in the order of the summary. There are as many rows as participants, so
  10 for a roster of 10, when the ids of the frame-14 keys are pairwise distinct and every
  participant's id is among them.
\<close>

theorem extract_rows_inner_join:
  assumes "eligible md frames" and "participantFrames (frames ! 14) = Some pfs"
    and "frame14_data pfs = Inr minute14"
    and "get_14_min_stats m md frames = Inr rows"
  shows "map participantId rows =
           map (\<lambda>pd. p_participantId (fst pd)) (merge_on_participantId (participants md) minute14)
    \<and> length rows = length (merge_on_participantId (participants md) minute14)
    \<and> (distinct (map fst minute14)
         \<and> p_participantId ` set (participants md) \<subseteq> fst ` set minute14
         \<longrightarrow> length rows = length (participants md))"
proof -
  from get_14_min_stats_eligible [OF assms(1,2,4)] assms(3)
  obtain c where rows: "rows = map (make_row md c) (merge_on_participantId (participants md) minute14)"
    by auto
  have "map participantId rows =
           map (\<lambda>pd. p_participantId (fst pd)) (merge_on_participantId (participants md) minute14)"
    by (simp add: rows make_row_def Let_def)
  moreover have "length rows = length (merge_on_participantId (participants md) minute14)"
    by (simp add: rows)
  ultimately show ?thesis
    by (simp add: length_merge_full)
qed

lemma py_int_examples:
  "py_int ''1'' = Some 1" "py_int ''2'' = Some 2" "py_int ''3'' = Some 3" "py_int ''4'' = Some 4"
  "py_int ''5'' = Some 5" "py_int ''6'' = Some 6" "py_int ''7'' = Some 7" "py_int ''8'' = Some 8"
  "py_int ''9'' = Some 9" "py_int ''10'' = Some 10"
  by (simp_all add: py_int_def strip_def is_space_def is_digit_def digit_val_def)

lemma example_timeline_facts:
  "length (example_timeline ks) = 15"
  "participantFrames (example_timeline ks ! 14) = Some (map (\<lambda>k. (k, example_pframe)) ks)"
  "aggregate_events (example_timeline ks) = Inr counters0"
  by (simp_all add: example_timeline_def nth_append aggregate_events_def frame_events_def
        numeral_eq_Suc)

lemma example_match_facts:
  "queueId example_match = Some 420" "gameVersion example_match = Some ''14.8.1''"
  "participants example_match = map example_participant [1, 2, 3, 4, 5, 6, 7, 8, 9, 10]"
  by (simp_all add: example_match_def)

lemma example_eligible: "eligible example_match (example_timeline ks)"
  by (simp add: eligible_def example_match_facts example_timeline_facts startswith_def)

lemma example_result:
  assumes "frame14_data (map (\<lambda>k. (k, example_pframe)) ks) = Inr minute14" and "minute14 \<noteq> []"
  shows "get_14_min_stats ''NA1_1'' example_match (example_timeline ks) =
    Inr (map (make_row example_match counters0)
          (merge_on_participantId (participants example_match) minute14))"
  using assms
  by (simp add: get_14_min_stats_def example_match_facts example_timeline_facts startswith_def)

theorem extract_rows_inner_join_witness:
  "map_sum id length
     (get_14_min_stats ''NA1_1'' example_match
        (example_timeline [''10'', ''9'', ''8'', ''7'', ''6'', ''5'', ''4'', ''3'', ''2'', ''1'']))
   = Inr 10"
proof -
  let ?ks = "[''10'', ''9'', ''8'', ''7'', ''6'', ''5'', ''4'', ''3'', ''2'', ''1'']"
  let ?m14 = "map (\<lambda>k. (k, example_pframe)) [10, 9, 8, 7, 6, 5, 4, 3, 2, 1 :: int]"
  have f14: "frame14_data (map (\<lambda>k. (k, example_pframe)) ?ks) = Inr ?m14"
    by (simp add: py_int_examples)
  have res: "get_14_min_stats ''NA1_1'' example_match (example_timeline ?ks) =
    Inr (map (make_row example_match counters0)
          (merge_on_participantId (participants example_match) ?m14))"
    by (rule example_result [OF f14]) simp
  have d: "distinct (map fst ?m14) \<and> p_participantId ` set (participants example_match) \<subseteq> fst ` set ?m14"
    by (simp add: example_match_facts example_participant_def)
  from extract_rows_inner_join [OF example_eligible example_timeline_facts(2) f14 res] d
  have "length (map (make_row example_match counters0)
          (merge_on_participantId (participants example_match) ?m14)) = length (participants example_match)"
    by blast
  then show ?thesis
    by (simp add: res example_match_facts)
qed

text \<open>
  The claim as it is written fails: with participants 1 to 10 in the summary and the keys
  5 down to 1 in frame 14 the match is eligible and the result has 5 rows.
\<close>

theorem partial_roster:
  "eligible example_match (example_timeline [''5'', ''4'', ''3'', ''2'', ''1''])
   \<and> map_sum id (map participantId)
       (get_14_min_stats ''NA1_1'' example_match (example_timeline [''5'', ''4'', ''3'', ''2'', ''1'']))
     = Inr [1, 2, 3, 4, 5]"
proof -
  let ?ks = "[''5'', ''4'', ''3'', ''2'', ''1'']"
  let ?m14 = "map (\<lambda>k. (k, example_pframe)) [5, 4, 3, 2, 1 :: int]"
  have f14: "frame14_data (map (\<lambda>k. (k, example_pframe)) ?ks) = Inr ?m14"
    by (simp add: py_int_examples)
  have res: "get_14_min_stats ''NA1_1'' example_match (example_timeline ?ks) =
    Inr (map (make_row example_match counters0)
          (merge_on_participantId (participants example_match) ?m14))"
    by (rule example_result [OF f14]) simp
  have "map participantId (map (make_row example_match counters0)
          (merge_on_participantId (participants example_match) ?m14)) = [1, 2, 3, 4, 5]"
    by (simp add: example_match_facts merge_on_participantId_def example_participant_def
          make_row_def)
  then show ?thesis
    using example_eligible [of ?ks] by (simp add: res)
qed

subsection \<open>The aggregation window\<close>

lemma count_all_append:
  "count_all (es @ es') c =
     (case count_all es c of Inl err \<Rightarrow> Inl err | Inr c' \<Rightarrow> count_all es' c')"
  by (induction es arbitrary: c) (auto split: sum.splits)

lemma process_events_window:
  "process_events es c =
     count_all (filter (\<lambda>e. (case timestamp e of None \<Rightarrow> 0 | Some t \<Rightarrow> t) \<le> 840000) es) c"
proof (induction es arbitrary: c)
  case Nil
  show ?case by simp
next
  case (Cons e es)
  show ?case
  proof (cases "event_time e \<le> 840000")
    case True
    then show ?thesis
      by (simp add: process_event_def event_time_def Cons.IH split: sum.splits)
  next
    case False
    then show ?thesis
      by (simp add: process_event_def event_time_def Cons.IH)
  qed
qed

lemma process_frames_window:
  "process_frames frs c =
     count_all (filter (\<lambda>e. (case timestamp e of None \<Rightarrow> 0 | Some t \<Rightarrow> t) \<le> 840000)
        (concat (map (\<lambda>fr. case events fr of None \<Rightarrow> [] | Some es \<Rightarrow> es) frs))) c"
proof (induction frs arbitrary: c)
  case Nil
  show ?case by simp
next
  case (Cons fr frs)
  show ?case
    by (simp add: process_events_window frame_events_def count_all_append Cons.IH
          split: sum.splits)
qed

lemma aggregate_events_window:
  "aggregate_events frames = count_all (window_events frames) counters0"
  by (simp add: aggregate_events_def window_events_def process_frames_window)

lemma window_events_member:
  "e \<in> set (window_events frames) \<longleftrightarrow>
     (\<exists>i es. i < length frames \<and> i \<le> 14 \<and> events (frames ! i) = Some es \<and> e \<in> set es)
     \<and> (case timestamp e of None \<Rightarrow> 0 | Some t \<Rightarrow> t) \<le> 840000"
proof -
  have "(\<exists>fr \<in> set (take 15 frames). e \<in> set (case events fr of None \<Rightarrow> [] | Some es \<Rightarrow> es)) \<longleftrightarrow>
        (\<exists>i es. i < length frames \<and> i \<le> 14 \<and> events (frames ! i) = Some es \<and> e \<in> set es)"
    (is "?L \<longleftrightarrow> ?R")
  proof
    assume ?L
    then obtain fr where fr: "fr \<in> set (take 15 frames)"
      and e: "e \<in> set (case events fr of None \<Rightarrow> [] | Some es \<Rightarrow> es)" by blast
    from fr obtain i where i: "i < length (take 15 frames)" "take 15 frames ! i = fr"
      by (auto simp: in_set_conv_nth)
    then have "i < length frames" "i \<le> 14" "frames ! i = fr" by simp_all
    moreover from e obtain es where "events fr = Some es" "e \<in> set es"
      by (cases "events fr") simp_all
    ultimately show ?R by blast
  next
    assume ?R
    then obtain i es where i: "i < length frames" "i \<le> 14" "events (frames ! i) = Some es" "e \<in> set es"
      by blast
    then have "frames ! i \<in> set (take 15 frames)"
      by (auto simp: in_set_conv_nth intro!: exI [of _ i])
    with i show ?L by force
  qed
  then show ?thesis
    by (auto simp: window_events_def)
qed

lemma get_14_min_stats_window:
  assumes "eligible md frames" and "participants md \<noteq> []"
    and "participantFrames (frames ! 14) = Some pfs"
    and "frame14_data pfs = Inr minute14" and "minute14 \<noteq> []"
  shows "get_14_min_stats m md frames =
     (case count_all (window_events frames) counters0 of
        Inl err \<Rightarrow> Inl err
      | Inr c \<Rightarrow> Inr (map (make_row md c) (merge_on_participantId (participants md) minute14)))"
  using assms
  by (simp add: get_14_min_stats_def eligible_def Let_def aggregate_events_window)

text \<open>
  C5. The counters of \<open>get_14_min_stats\<close> are those of the events of frames 0 to 14
  whose timestamp is at most 840000 ms, counted in order, and of no other event: an event
  at 840001 ms is not among them, in frame 14 or elsewhere, and an event of frame 14 at
  840000 ms exactly is. The rows of an eligible match are built from these counters.
\<close>

theorem event_window:
  "aggregate_events frames = count_all (window_events frames) counters0
   \<and> (e \<in> set (window_events frames) \<longleftrightarrow>
        (\<exists>i es. i < length frames \<and> i \<le> 14 \<and> events (frames ! i) = Some es \<and> e \<in> set es)
        \<and> (case timestamp e of None \<Rightarrow> 0 | Some t \<Rightarrow> t) \<le> 840000)
   \<and> (timestamp e = Some 840001 \<longrightarrow> e \<notin> set (window_events frames))
   \<and> (timestamp e = Some 840000 \<and> 14 < length frames \<and> events (frames ! 14) = Some es14
        \<and> e \<in> set es14 \<longrightarrow> e \<in> set (window_events frames))
   \<and> (eligible md frames \<and> participants md \<noteq> [] \<and> participantFrames (frames ! 14) = Some pfs
        \<and> frame14_data pfs = Inr minute14 \<and> minute14 \<noteq> [] \<longrightarrow>
        get_14_min_stats m md frames =
          (case count_all (window_events frames) counters0 of
             Inl err \<Rightarrow> Inl err
           | Inr c \<Rightarrow> Inr (map (make_row md c)
                          (merge_on_participantId (participants md) minute14))))"
proof -
  have a: "timestamp e = Some 840001 \<longrightarrow> e \<notin> set (window_events frames)"
    by (simp add: window_events_member)
  have b: "timestamp e = Some 840000 \<and> 14 < length frames \<and> events (frames ! 14) = Some es14
        \<and> e \<in> set es14 \<longrightarrow> e \<in> set (window_events frames)"
    unfolding window_events_member by auto
  show ?thesis
    using a b get_14_min_stats_window [of md frames pfs minute14 m]
    by (simp only: aggregate_events_window window_events_member [of e frames]) blast
qed

lemma example_timeline_with_facts:
  "length (example_timeline_with ks evs14 evs15) = 16"
  "participantFrames (example_timeline_with ks evs14 evs15 ! 14)
     = Some (map (\<lambda>k. (k, example_pframe)) ks)"
  "events (example_timeline_with ks evs14 evs15 ! 14) = Some evs14"
  "window_events (example_timeline_with ks evs14 evs15)
     = filter (\<lambda>e. (case timestamp e of None \<Rightarrow> 0 | Some t \<Rightarrow> t) \<le> 840000) evs14"
  by (simp_all add: example_timeline_with_def nth_append window_events_def)

lemma example_keys_data:
  "frame14_data (map (\<lambda>k. (k, example_pframe)) example_keys)
     = Inr (map (\<lambda>k. (k, example_pframe)) [10, 9, 8, 7, 6, 5, 4, 3, 2, 1])"
  by (simp add: example_keys_def py_int_examples)

lemma example_with_eligible: "eligible example_match (example_timeline_with ks evs14 evs15)"
  by (simp add: eligible_def example_match_facts example_timeline_with_facts startswith_def)

lemma example_merge:
  "map (\<lambda>pd. p_participantId (fst pd))
     (merge_on_participantId (participants example_match)
        (map (\<lambda>k. (k, example_pframe)) [10, 9, 8, 7, 6, 5, 4, 3, 2, 1]))
   = [1, 2, 3, 4, 5, 6, 7, 8, 9, 10]"
  by (simp add: example_match_facts merge_on_participantId_def example_participant_def)

theorem event_window_witness:
  "map_sum id (map kills_14)
     (get_14_min_stats ''NA1_1'' example_match
        (example_timeline_with example_keys
           [kill_event 840000 (Some 1) (Some 6) [], kill_event 840001 (Some 2) (Some 7) []]
           [kill_event 0 (Some 3) (Some 8) []]))
   = Inr [1, 0, 0, 0, 0, 0, 0, 0, 0, 0]
   \<and> kill_event 840001 (Some 2) (Some 7) [] \<notin> set (window_events
       (example_timeline_with example_keys
           [kill_event 840000 (Some 1) (Some 6) [], kill_event 840001 (Some 2) (Some 7) []]
           [kill_event 0 (Some 3) (Some 8) []]))
   \<and> kill_event 840000 (Some 1) (Some 6) [] \<in> set (window_events
       (example_timeline_with example_keys
           [kill_event 840000 (Some 1) (Some 6) [], kill_event 840001 (Some 2) (Some 7) []]
           [kill_event 0 (Some 3) (Some 8) []]))"
proof -
  let ?tl = "example_timeline_with example_keys
           [kill_event 840000 (Some 1) (Some 6) [], kill_event 840001 (Some 2) (Some 7) []]
           [kill_event 0 (Some 3) (Some 8) []]"
  let ?m14 = "map (\<lambda>k. (k, example_pframe)) [10, 9, 8, 7, 6, 5, 4, 3, 2, 1 :: int]"
  have h: "eligible example_match ?tl \<and> participants example_match \<noteq> []
        \<and> participantFrames (?tl ! 14) = Some (map (\<lambda>k. (k, example_pframe)) example_keys)
        \<and> frame14_data (map (\<lambda>k. (k, example_pframe)) example_keys) = Inr ?m14 \<and> ?m14 \<noteq> []"
    by (simp add: example_with_eligible example_timeline_with_facts example_keys_data
          example_match_facts)
  have w: "window_events ?tl = [kill_event 840000 (Some 1) (Some 6) []]"
    by (simp add: example_timeline_with_facts kill_event_def)
  have c: "count_all [kill_event 840000 (Some 1) (Some 6) []] counters0
     = Inr (count_event ''CHAMPION_KILL'' (kill_event 840000 (Some 1) (Some 6) []) counters0)"
    by (simp add: count_one_def kill_event_def)
  have k: "d_kills_14 (count_event ''CHAMPION_KILL'' (kill_event 840000 (Some 1) (Some 6) []) counters0)
     = (\<lambda>k. if k = 1 then 1 else 0)"
    by (simp add: count_event_def kill_event_def counters0_def bump_if_def bump_def fun_eq_iff)
  from event_window [of ?tl _ _ example_match "map (\<lambda>k. (k, example_pframe)) example_keys" ?m14
      "''NA1_1''"] h
  have "get_14_min_stats ''NA1_1'' example_match ?tl =
     (case count_all (window_events ?tl) counters0 of
        Inl err \<Rightarrow> Inl err
      | Inr c \<Rightarrow> Inr (map (make_row example_match c)
                     (merge_on_participantId (participants example_match) ?m14)))"
    by blast
  then have "get_14_min_stats ''NA1_1'' example_match ?tl =
     Inr (map (make_row example_match
            (count_event ''CHAMPION_KILL'' (kill_event 840000 (Some 1) (Some 6) []) counters0))
          (merge_on_participantId (participants example_match) ?m14))"
    by (simp only: w c sum.case)
  then have g: "map_sum id (map kills_14) (get_14_min_stats ''NA1_1'' example_match ?tl) =
     Inr (map kills_14 (map (make_row example_match
            (count_event ''CHAMPION_KILL'' (kill_event 840000 (Some 1) (Some 6) []) counters0))
          (merge_on_participantId (participants example_match) ?m14)))"
    by (simp only: map_sum.simps)
  have "map kills_14 (map (make_row example_match
            (count_event ''CHAMPION_KILL'' (kill_event 840000 (Some 1) (Some 6) []) counters0))
          (merge_on_participantId (participants example_match) ?m14))
     = map (\<lambda>k. if k = 1 then 1 else 0)
         (map (\<lambda>pd. p_participantId (fst pd))
            (merge_on_participantId (participants example_match) ?m14))"
    by (simp add: make_row_def Let_def k)
  also have "\<dots> = map (\<lambda>k. if k = 1 then 1 else 0) [1, 2, 3, 4, 5, 6, 7, 8, 9, 10 :: int]"
    by (simp only: example_merge)
  also have "\<dots> = [1, 0, 0, 0, 0, 0, 0, 0, 0, 0]"
    by simp
  finally have rows: "map_sum id (map kills_14) (get_14_min_stats ''NA1_1'' example_match ?tl)
     = Inr [1, 0, 0, 0, 0, 0, 0, 0, 0, 0]"
    by (simp only: g)
  have t1: "timestamp (kill_event 840001 (Some 2) (Some 7) []) = Some 840001"
    by (simp add: kill_event_def)
  from event_window [of ?tl "kill_event 840001 (Some 2) (Some 7) []"] t1
  have out: "kill_event 840001 (Some 2) (Some 7) [] \<notin> set (window_events ?tl)"
    by blast
  have t0: "timestamp (kill_event 840000 (Some 1) (Some 6) []) = Some 840000 \<and> 14 < length ?tl
      \<and> events (?tl ! 14)
          = Some [kill_event 840000 (Some 1) (Some 6) [], kill_event 840001 (Some 2) (Some 7) []]
      \<and> kill_event 840000 (Some 1) (Some 6) []
          \<in> set [kill_event 840000 (Some 1) (Some 6) [], kill_event 840001 (Some 2) (Some 7) []]"
    by (simp add: example_timeline_with_facts kill_event_def)
  from event_window [of ?tl "kill_event 840000 (Some 1) (Some 6) []"
      "[kill_event 840000 (Some 1) (Some 6) [], kill_event 840001 (Some 2) (Some 7) []]"] t0
  have inn: "kill_event 840000 (Some 1) (Some 6) [] \<in> set (window_events ?tl)"
    by blast
  from rows out inn show ?thesis
    by (intro conjI)
qed

subsection \<open>Kills, deaths and assists\<close>

lemma fold_bump_count:
  "fold (\<lambda>aid d. bump d aid) as d a = d a + int (count_list as a)"
  by (induction as arbitrary: d) (auto simp: bump_def)

lemma count_event_kills:
  "d_kills_14 (count_event ty e c) k =
     d_kills_14 c k + (if ty = ''CHAMPION_KILL'' \<and> killerId e = Some k \<and> k \<noteq> 0 then 1 else 0)"
  by (simp add: count_event_def Let_def bump_if_def bump_def split: option.splits)

lemma count_event_deaths:
  "d_deaths_14 (count_event ty e c) v =
     d_deaths_14 c v + (if ty = ''CHAMPION_KILL'' \<and> victimId e = Some v \<and> v \<noteq> 0 then 1 else 0)"
  by (simp add: count_event_def Let_def bump_if_def bump_def split: option.splits)

lemma count_event_assists:
  "d_assists_14 (count_event ty e c) a =
     d_assists_14 c a +
       (if ty = ''CHAMPION_KILL''
        then int (count_list (case assistingParticipantIds e of None \<Rightarrow> [] | Some l \<Rightarrow> l) a)
        else 0)"
  by (simp add: count_event_def Let_def fold_bump_count split: option.splits)

lemma count_all_kills:
  "count_all es c0 = Inr c \<Longrightarrow>
   d_kills_14 c k = d_kills_14 c0 k +
     (if k = 0 then 0
      else int (length (filter (\<lambda>e. killerId e = Some k)
                  (filter (\<lambda>e. e_type e = Some ''CHAMPION_KILL'') es))))"
proof (induction es arbitrary: c0)
  case Nil
  then show ?case by simp
next
  case (Cons e es)
  from Cons.prems obtain ty where ty: "e_type e = Some ty"
    and rest: "count_all es (count_event ty e c0) = Inr c"
    by (auto simp: count_one_def split: option.splits)
  from Cons.IH [OF rest] ty show ?case
    by (simp add: count_event_kills)
qed

lemma count_all_deaths:
  "count_all es c0 = Inr c \<Longrightarrow>
   d_deaths_14 c v = d_deaths_14 c0 v +
     (if v = 0 then 0
      else int (length (filter (\<lambda>e. victimId e = Some v)
                  (filter (\<lambda>e. e_type e = Some ''CHAMPION_KILL'') es))))"
proof (induction es arbitrary: c0)
  case Nil
  then show ?case by simp
next
  case (Cons e es)
  from Cons.prems obtain ty where ty: "e_type e = Some ty"
    and rest: "count_all es (count_event ty e c0) = Inr c"
    by (auto simp: count_one_def split: option.splits)
  from Cons.IH [OF rest] ty show ?case
    by (simp add: count_event_deaths)
qed

lemma count_all_assists:
  "count_all es c0 = Inr c \<Longrightarrow>
   d_assists_14 c a = d_assists_14 c0 a +
     sum_list (map (\<lambda>e. int (count_list
                  (case assistingParticipantIds e of None \<Rightarrow> [] | Some l \<Rightarrow> l) a))
               (filter (\<lambda>e. e_type e = Some ''CHAMPION_KILL'') es))"
proof (induction es arbitrary: c0)
  case Nil
  then show ?case by simp
next
  case (Cons e es)
  from Cons.prems obtain ty where ty: "e_type e = Some ty"
    and rest: "count_all es (count_event ty e c0) = Inr c"
    by (auto simp: count_one_def split: option.splits)
  from Cons.IH [OF rest] ty show ?case
    by (simp add: count_event_assists)
qed

lemma aggregate_events_champion_kills:
  assumes "aggregate_events frames = Inr c"
  shows "d_kills_14 c k = kill_count frames k"
    and "d_deaths_14 c k = death_count frames k"
    and "d_assists_14 c k = assist_count frames k"
proof -
  from assms have w: "count_all (window_events frames) counters0 = Inr c"
    by (simp add: aggregate_events_window)
  show "d_kills_14 c k = kill_count frames k"
    using count_all_kills [OF w, of k]
    by (simp add: kill_count_def champion_kills_def counters0_def)
  show "d_deaths_14 c k = death_count frames k"
    using count_all_deaths [OF w, of k]
    by (simp add: death_count_def champion_kills_def counters0_def)
  show "d_assists_14 c k = assist_count frames k"
    using count_all_assists [OF w, of k]
    by (simp add: assist_count_def champion_kills_def counters0_def)
qed

lemma get_14_min_stats_rows:
  assumes "get_14_min_stats m md frames = Inr rows"
  shows "rows = [] \<or>
     (\<exists>c players. aggregate_events frames = Inr c \<and> rows = map (make_row md c) players)"
  using assms
  by (auto simp: get_14_min_stats_def Let_def split: if_splits option.splits sum.splits)

lemma make_row_counts:
  "participantId (make_row md c pd) = p_participantId (fst pd)"
  "kills_14 (make_row md c pd) = d_kills_14 c (p_participantId (fst pd))"
  "deaths_14 (make_row md c pd) = d_deaths_14 c (p_participantId (fst pd))"
  "assists_14 (make_row md c pd) = d_assists_14 c (p_participantId (fst pd))"
  by (simp_all add: make_row_def Let_def)

text \<open>
  C6. In every row that \<open>get_14_min_stats\<close> returns, \<open>kills_14\<close> is the number of
  \<open>CHAMPION_KILL\<close> events of the aggregation window whose \<open>killerId\<close> is the participant
  of the row: an event whose \<open>killerId\<close> is absent or 0 adds to nobody's kills, and an event
  with killer \<open>k \<noteq> 0\<close> adds one to the kills of \<open>k\<close> and of nobody else. Whatever the
  killer, \<open>deaths_14\<close> is the number of these events whose \<open>victimId\<close> is the participant,
  and \<open>assists_14\<close> the number of times these events list the participant among
  \<open>assistingParticipantIds\<close>.
\<close>

theorem champion_kill_columns:
  assumes "get_14_min_stats m md frames = Inr rows"
  shows "\<forall>r \<in> set rows.
           kills_14 r = kill_count frames (participantId r)
         \<and> deaths_14 r = death_count frames (participantId r)
         \<and> assists_14 r = assist_count frames (participantId r)"
proof -
  from get_14_min_stats_rows [OF assms]
  show ?thesis
  proof
    assume "rows = []"
    then show ?thesis by simp
  next
    assume "\<exists>c players. aggregate_events frames = Inr c \<and> rows = map (make_row md c) players"
    then obtain c players where c: "aggregate_events frames = Inr c"
      and rows: "rows = map (make_row md c) players" by blast
    show ?thesis
      by (simp add: rows make_row_counts aggregate_events_champion_kills [OF c])
  qed
qed

theorem champion_kill_columns_witness:
  "map_sum id (map (\<lambda>r. (kills_14 r, deaths_14 r, assists_14 r)))
     (get_14_min_stats ''NA1_1'' example_match
        (example_timeline_with example_keys
           [kill_event 1000 None (Some 6) [2, 3], kill_event 2000 (Some 0) (Some 7) [2],
            kill_event 3000 (Some 1) (Some 6) [], kill_event 840001 (Some 1) (Some 6) [4]]
           []))
   = Inr [(1, 0, 0), (0, 0, 2), (0, 0, 1), (0, 0, 0), (0, 0, 0),
          (0, 2, 0), (0, 1, 0), (0, 0, 0), (0, 0, 0), (0, 0, 0)]"
proof -
  let ?evs = "[kill_event 1000 None (Some 6) [2, 3], kill_event 2000 (Some 0) (Some 7) [2],
            kill_event 3000 (Some 1) (Some 6) [], kill_event 840001 (Some 1) (Some 6) [4]]"
  let ?tl = "example_timeline_with example_keys ?evs []"
  let ?m14 = "map (\<lambda>k. (k, example_pframe)) [10, 9, 8, 7, 6, 5, 4, 3, 2, 1 :: int]"
  let ?players = "merge_on_participantId (participants example_match) ?m14"
  have w: "window_events ?tl = [kill_event 1000 None (Some 6) [2, 3],
      kill_event 2000 (Some 0) (Some 7) [2], kill_event 3000 (Some 1) (Some 6) []]"
    by (simp add: example_timeline_with_facts kill_event_def)
  have ck: "champion_kills ?tl = [kill_event 1000 None (Some 6) [2, 3],
      kill_event 2000 (Some 0) (Some 7) [2], kill_event 3000 (Some 1) (Some 6) []]"
    by (simp only: champion_kills_def w) (simp add: kill_event_def)
  obtain c where c: "count_all (window_events ?tl) counters0 = Inr c"
    by (simp only: w) (simp add: count_one_def kill_event_def)
  have "get_14_min_stats ''NA1_1'' example_match ?tl =
     (case count_all (window_events ?tl) counters0 of
        Inl err \<Rightarrow> Inl err
      | Inr c \<Rightarrow> Inr (map (make_row example_match c) ?players))"
    by (rule get_14_min_stats_window
          [where pfs = "map (\<lambda>k. (k, example_pframe)) example_keys"])
       (simp_all add: example_with_eligible example_timeline_with_facts example_keys_data
          example_match_facts)
  then have g: "get_14_min_stats ''NA1_1'' example_match ?tl
      = Inr (map (make_row example_match c) ?players)"
    by (simp only: c sum.case)
  have ids: "map participantId (map (make_row example_match c) ?players)
      = [1, 2, 3, 4, 5, 6, 7, 8, 9, 10]"
    using example_merge by (simp add: make_row_counts o_def)
  have "map (\<lambda>r. (kills_14 r, deaths_14 r, assists_14 r)) (map (make_row example_match c) ?players)
      = map (\<lambda>r. (kill_count ?tl (participantId r), death_count ?tl (participantId r),
                  assist_count ?tl (participantId r))) (map (make_row example_match c) ?players)"
  proof (rule map_cong [OF refl])
    fix r assume "r \<in> set (map (make_row example_match c) ?players)"
    with champion_kill_columns [OF g]
    have "kills_14 r = kill_count ?tl (participantId r)
         \<and> deaths_14 r = death_count ?tl (participantId r)
         \<and> assists_14 r = assist_count ?tl (participantId r)"
      by blast
    then show "(kills_14 r, deaths_14 r, assists_14 r)
        = (kill_count ?tl (participantId r), death_count ?tl (participantId r),
           assist_count ?tl (participantId r))"
      by (simp only:)
  qed
  also have "\<dots> = map (\<lambda>k. (kill_count ?tl k, death_count ?tl k, assist_count ?tl k))
      (map participantId (map (make_row example_match c) ?players))"
    by (simp only: map_map o_def)
  also have "\<dots> = map (\<lambda>k. (kill_count ?tl k, death_count ?tl k, assist_count ?tl k))
      [1, 2, 3, 4, 5, 6, 7, 8, 9, 10]"
    by (simp only: ids)
  also have "\<dots> = [(1, 0, 0), (0, 0, 2), (0, 0, 1), (0, 0, 0), (0, 0, 0),
          (0, 2, 0), (0, 1, 0), (0, 0, 0), (0, 0, 0), (0, 0, 0)]"
    by (simp only: kill_count_def death_count_def assist_count_def ck) (simp add: kill_event_def)
  finally show ?thesis
    by (simp only: g map_sum.simps)
qed

subsection \<open>The frame of a role differential\<close>

lemma for_each_invariant:
  assumes "P s" and "\<And>x s. P s \<Longrightarrow> P (fst (stmt x s))"
  shows "P (fst (for_each stmt xs s))"
  using assms(1)
proof (induction xs arbitrary: s)
  case Nil
  then show ?case by simp
next
  case (Cons x xs)
  obtain s' e where b: "stmt x s = (s', e)" by (cases "stmt x s")
  from assms(2) [OF Cons.prems, of x] b have s': "P s'" by simp
  show ?case
  proof (cases e)
    case None
    with b Cons.IH [OF s'] show ?thesis by simp
  next
    case (Some err)
    with b s' show ?thesis by simp
  qed
qed

lemma for_each_no_error:
  assumes "\<And>x s. x \<in> set xs \<Longrightarrow> snd (stmt x s) = None"
  shows "snd (for_each stmt xs s) = None"
  using assms
proof (induction xs arbitrary: s)
  case Nil
  then show ?case by simp
next
  case (Cons x xs)
  obtain s' e where b: "stmt x s = (s', e)" by (cases "stmt x s")
  from Cons.prems [of x s] b have e: "e = None" by simp
  have "snd (for_each stmt xs s') = None"
    by (rule Cons.IH) (simp add: Cons.prems)
  with b e show ?case by simp
qed

lemma map_other_columns:
  assumes "name \<notin> fst ` set cs"
  shows "map (\<lambda>(n, c). if n = name then (n, g c) else (n, c)) cs = cs"
  using assms by (induction cs) auto

lemma loc_write_appended:
  assumes "columns df = cs @ [(name, col)]" and "name \<notin> fst ` set cs"
  shows "index (loc_write df label name v) = index df"
    and "columns (loc_write df label name v) =
           cs @ [(name, map (\<lambda>(l, x). if l = label then v else x) (zip (index df) col))]"
  using assms by (simp_all add: loc_write_def map_other_columns)

lemma loc_setitem_keeps:
  assumes "length st = Suc n" and "index (st ! n) = idx"
    and "columns (st ! n) = cs @ [(name, col)]" and "name \<notin> fst ` set cs"
    and "length col = length idx" and "\<forall>c \<in> set col. \<exists>x. c = CFloat x"
  shows "length (loc_setitem st n label name (CFloat v)) = Suc n
     \<and> take n (loc_setitem st n label name (CFloat v)) = take n st
     \<and> index (loc_setitem st n label name (CFloat v) ! n) = idx
     \<and> (\<exists>col'. columns (loc_setitem st n label name (CFloat v) ! n) = cs @ [(name, col')]
            \<and> length col' = length idx \<and> (\<forall>c \<in> set col'. \<exists>x. c = CFloat x))"
proof -
  let ?col' = "map (\<lambda>(l, x). if l = label then CFloat v else x) (zip idx col)"
  have n: "loc_setitem st n label name (CFloat v) ! n = loc_write (st ! n) label name (CFloat v)"
    using assms(1) by (simp add: loc_setitem_def)
  have c: "columns (loc_write (st ! n) label name (CFloat v)) = cs @ [(name, ?col')]"
    using loc_write_appended(2) [OF assms(3,4)] assms(2) by simp
  have f: "\<forall>c \<in> set ?col'. \<exists>x. c = CFloat x"
    using assms(6) by (auto dest: set_zip_rightD)
  have l: "length ?col' = length idx"
    using assms(5) by simp
  show ?thesis
    using assms(1,2) c f l loc_write_appended(1) [OF assms(3,4)]
    by (simp only: n) (simp add: loc_setitem_def)
qed

lemma role_pair_keeps:
  fixes n :: nat and st0 :: store and idx :: "int list" and cs :: "(string \<times> cell list) list"
    and name :: string
  defines "I \<equiv> \<lambda>st. length st = Suc n \<and> take n st = st0 \<and> index (st ! n) = idx
     \<and> (\<exists>col. columns (st ! n) = cs @ [(name, col)]
            \<and> length col = length idx \<and> (\<forall>c \<in> set col. \<exists>x. c = CFloat x))"
  assumes name: "name \<notin> fst ` set cs" and st: "I st"
  shows "I (fst (role_pair value_col name df n role_group st))"
proof -
  have w: "I (loc_setitem s n label name (CFloat v))" if "I s" for s label v
  proof -
    from that obtain col where s: "length s = Suc n" "take n s = st0" "index (s ! n) = idx"
      "columns (s ! n) = cs @ [(name, col)]" "length col = length idx"
      "\<forall>c \<in> set col. \<exists>x. c = CFloat x"
      unfolding I_def by blast
    from loc_setitem_keeps [OF s(1,3,4) name s(5,6), of label v] s(2)
    show ?thesis unfolding I_def by simp
  qed
  have ww: "I (loc_setitem (loc_setitem st n l1 name (CFloat v1)) n l2 name (CFloat v2))"
    for l1 l2 v1 v2
    by (rule w) (rule w, rule st)
  show ?thesis
    using st ww
    by (simp add: role_pair_def Let_def split: option.splits)
qed

lemma match_roles_keeps:
  fixes n :: nat and st0 :: store and idx :: "int list" and cs :: "(string \<times> cell list) list"
    and name :: string
  defines "I \<equiv> \<lambda>st. length st = Suc n \<and> take n st = st0 \<and> index (st ! n) = idx
     \<and> (\<exists>col. columns (st ! n) = cs @ [(name, col)]
            \<and> length col = length idx \<and> (\<forall>c \<in> set col. \<exists>x. c = CFloat x))"
  assumes name: "name \<notin> fst ` set cs" and st: "I st"
  shows "I (fst (match_roles value_col name df n match_df st))"
proof (cases "groupby df match_df ''teamPosition''")
  case (Inl err)
  with st show ?thesis by (simp add: match_roles_def)
next
  case (Inr role_groups)
  have "I (fst (for_each (role_pair value_col name df n) role_groups st))"
    using st
  proof (rule for_each_invariant [where P = I])
    fix g s assume "I s"
    then show "I (fst (role_pair value_col name df n g s))"
      unfolding I_def by (rule role_pair_keeps [OF name])
  qed
  with Inr show ?thesis by (simp add: match_roles_def)
qed

lemma role_diff_keeps:
  assumes p: "p < length st" and name: "name \<notin> fst ` set (columns (st ! p))"
  shows "length (fst (role_diff value_col name st p)) = Suc (length st)
     \<and> take (length st) (fst (role_diff value_col name st p)) = st
     \<and> index (fst (role_diff value_col name st p) ! length st) = index (st ! p)
     \<and> (\<exists>col. columns (fst (role_diff value_col name st p) ! length st)
                 = columns (st ! p) @ [(name, col)]
            \<and> length col = length (index (st ! p)) \<and> (\<forall>c \<in> set col. \<exists>x. c = CFloat x))"
proof -
  define I where "I = (\<lambda>s. length s = Suc (length st) \<and> take (length st) s = st
     \<and> index (s ! length st) = index (st ! p)
     \<and> (\<exists>col. columns (s ! length st) = columns (st ! p) @ [(name, col)]
            \<and> length col = length (index (st ! p)) \<and> (\<forall>c \<in> set col. \<exists>x. c = CFloat x)))"
  define st2 where "st2 = setitem (st @ [st ! p]) (length st) name (CFloat 0)"
  define df where "df = st2 ! length st"
  have st2: "I st2"
    using name by (simp add: I_def st2_def setitem_def set_column_def)
  have loop: "I (fst (for_each (match_roles value_col name df (length st)) ms st2))" for ms
    using st2
  proof (rule for_each_invariant [where P = I])
    fix m s assume "I s"
    then show "I (fst (match_roles value_col name df (length st) m s))"
      unfolding I_def by (rule match_roles_keeps [OF name])
  qed
  have "I (fst (role_diff value_col name st p))"
  proof (cases "groupby df [0 ..< length (index df)] ''match_id''")
    case (Inl err)
    with st2 show ?thesis
      by (simp add: role_diff_def copy_def Let_def st2_def [symmetric] df_def [symmetric])
  next
    case (Inr ms)
    with loop [of ms] show ?thesis
      by (auto simp: role_diff_def copy_def Let_def st2_def [symmetric] df_def [symmetric]
            split: prod.splits option.splits)
  qed
  then show ?thesis by (simp add: I_def)
qed

lemma role_diff_address:
  "snd (role_diff value_col name st p) = Inr q \<Longrightarrow> q = length st"
  by (auto simp: role_diff_def copy_def Let_def split: sum.splits prod.splits option.splits)

lemma group_rows_subset: "g \<in> set (group_rows col rows) \<Longrightarrow> set g \<subseteq> set rows"
  by (auto simp: group_rows_def)

lemma map_of_appended:
  "map_of cs k = Some x \<Longrightarrow> map_of (cs @ [(name, col)]) k = Some x"
  by simp

lemma role_pair_no_error:
  assumes "map_of (columns df) value_col = Some vc" and "\<forall>c \<in> set vc. number c \<noteq> None"
    and "\<forall>i \<in> set role_group. i < length vc"
  shows "snd (role_pair value_col name df n role_group s) = None"
proof (cases "length role_group = 2")
  case False
  then show ?thesis by (simp add: role_pair_def)
next
  case True
  then have "role_group ! 0 \<in> set role_group" "role_group ! 1 \<in> set role_group"
    by simp_all
  with assms(3) have "vc ! (role_group ! 0) \<in> set vc" "vc ! (role_group ! 1) \<in> set vc"
    by simp_all
  with assms(2) obtain v1 v2 where "number (vc ! (role_group ! 0)) = Some v1"
    "number (vc ! (role_group ! 1)) = Some v2" by fastforce
  with True assms(1) show ?thesis
    by (simp add: role_pair_def Let_def)
qed

lemma match_roles_no_error:
  assumes "map_of (columns df) ''teamPosition'' = Some tc"
    and "map_of (columns df) value_col = Some vc" and "\<forall>c \<in> set vc. number c \<noteq> None"
    and "\<forall>i \<in> set match_df. i < length vc"
  shows "snd (match_roles value_col name df n match_df s) = None"
proof -
  have "snd (for_each (role_pair value_col name df n) (group_rows tc match_df) s) = None"
  proof (rule for_each_no_error)
    fix g s' assume "g \<in> set (group_rows tc match_df)"
    with assms(4) have "\<forall>i \<in> set g. i < length vc"
      using group_rows_subset by blast
    then show "snd (role_pair value_col name df n g s') = None"
      by (rule role_pair_no_error [OF assms(2,3)])
  qed
  with assms(1) show ?thesis
    by (simp add: match_roles_def groupby_def)
qed

lemma role_diff_returns:
  assumes p: "p < length st" and wf: "wf_frame (st ! p)"
    and m: "map_of (columns (st ! p)) ''match_id'' = Some mc"
    and t: "map_of (columns (st ! p)) ''teamPosition'' = Some tc"
    and v: "map_of (columns (st ! p)) value_col = Some vc"
    and num: "\<forall>c \<in> set vc. number c \<noteq> None"
    and name: "name \<notin> fst ` set (columns (st ! p))"
  shows "snd (role_diff value_col name st p) = Inr (length st)"
proof -
  define st2 where "st2 = setitem (st @ [st ! p]) (length st) name (CFloat 0)"
  define df where "df = st2 ! length st"
  have cols: "columns df
      = columns (st ! p) @ [(name, replicate (length (index (st ! p))) (CFloat 0))]"
    and idx: "index df = index (st ! p)"
    using name by (simp_all add: df_def st2_def setitem_def set_column_def)
  have m': "map_of (columns df) ''match_id'' = Some mc"
    and t': "map_of (columns df) ''teamPosition'' = Some tc"
    and v': "map_of (columns df) value_col = Some vc"
    by (simp_all only: cols map_of_appended [OF m] map_of_appended [OF t]
          map_of_appended [OF v])
  from v have "(value_col, vc) \<in> set (columns (st ! p))"
    by (rule map_of_SomeD)
  with wf have len: "length vc = length (index (st ! p))"
    by (auto simp: wf_frame_def)
  have "snd (for_each (match_roles value_col name df (length st))
               (group_rows mc [0 ..< length (index df)]) st2) = None"
  proof (rule for_each_no_error)
    fix g s assume "g \<in> set (group_rows mc [0 ..< length (index df)])"
    then have "\<forall>i \<in> set g. i < length vc"
      using group_rows_subset [of g mc "[0 ..< length (index df)]"] len idx by auto
    then show "snd (match_roles value_col name df (length st) g s) = None"
      by (rule match_roles_no_error [OF t' v' num])
  qed
  with m' show ?thesis
    by (auto simp: role_diff_def copy_def Let_def st2_def [symmetric] df_def [symmetric]
          groupby_def split: prod.splits option.splits)
qed

lemma for_each_related:
  assumes "R s t"
    and "\<And>x s t. R s t \<Longrightarrow>
           R (fst (stmt x s)) (fst (stmt' x t)) \<and> snd (stmt x s) = snd (stmt' x t)"
  shows "R (fst (for_each stmt xs s)) (fst (for_each stmt' xs t))
     \<and> snd (for_each stmt xs s) = snd (for_each stmt' xs t)"
  using assms(1)
proof (induction xs arbitrary: s t)
  case Nil
  then show ?case by simp
next
  case (Cons x xs)
  obtain s' e where s': "stmt x s = (s', e)" by (cases "stmt x s")
  obtain t' e' where t': "stmt' x t = (t', e')" by (cases "stmt' x t")
  from assms(2) [OF Cons.prems, of x] s' t' have r: "R s' t'" and e: "e' = e" by simp_all
  show ?case
  proof (cases e)
    case None
    with s' t' e Cons.IH [OF r] show ?thesis by simp
  next
    case (Some err)
    with s' t' e r show ?thesis by simp
  qed
qed

lemma loc_setitem_nth:
  "n < length s \<Longrightarrow> loc_setitem s n label name v ! n = loc_write (s ! n) label name v"
  "length (loc_setitem s n label name v) = length s"
  by (simp_all add: loc_setitem_def)

lemma role_pair_related:
  assumes "length s = Suc n \<and> length t = Suc m \<and> s ! n = t ! m"
  shows "(length (fst (role_pair value_col name df n g s)) = Suc n
          \<and> length (fst (role_pair value_col name df m g t)) = Suc m
          \<and> fst (role_pair value_col name df n g s) ! n
              = fst (role_pair value_col name df m g t) ! m)
     \<and> snd (role_pair value_col name df n g s) = snd (role_pair value_col name df m g t)"
  using assms
  by (simp add: role_pair_def Let_def loc_setitem_nth split: option.splits)

lemma match_roles_related:
  assumes "length s = Suc n \<and> length t = Suc m \<and> s ! n = t ! m"
  shows "(length (fst (match_roles value_col name df n g s)) = Suc n
          \<and> length (fst (match_roles value_col name df m g t)) = Suc m
          \<and> fst (match_roles value_col name df n g s) ! n
              = fst (match_roles value_col name df m g t) ! m)
     \<and> snd (match_roles value_col name df n g s) = snd (match_roles value_col name df m g t)"
proof (cases "groupby df g ''teamPosition''")
  case (Inl err)
  with assms show ?thesis by (simp add: match_roles_def)
next
  case (Inr role_groups)
  have "(length (fst (for_each (role_pair value_col name df n) role_groups s)) = Suc n
          \<and> length (fst (for_each (role_pair value_col name df m) role_groups t)) = Suc m
          \<and> fst (for_each (role_pair value_col name df n) role_groups s) ! n
              = fst (for_each (role_pair value_col name df m) role_groups t) ! m)
     \<and> snd (for_each (role_pair value_col name df n) role_groups s)
         = snd (for_each (role_pair value_col name df m) role_groups t)"
    by (rule for_each_related
          [where R = "\<lambda>s t. length s = Suc n \<and> length t = Suc m \<and> s ! n = t ! m",
           OF assms role_pair_related])
  with Inr show ?thesis by (simp add: match_roles_def)
qed

lemma role_diff_of_table:
  assumes "p < length st" and "p' < length st'" and "st ! p = st' ! p'"
  shows "fst (role_diff value_col name st p) ! length st
           = fst (role_diff value_col name st' p') ! length st'
     \<and> map_sum id (\<lambda>q. ()) (snd (role_diff value_col name st p))
           = map_sum id (\<lambda>q. ()) (snd (role_diff value_col name st' p'))"
proof -
  define s2 where "s2 = setitem (st @ [st ! p]) (length st) name (CFloat 0)"
  define t2 where "t2 = setitem (st' @ [st' ! p']) (length st') name (CFloat 0)"
  define df where "df = s2 ! length st"
  have r: "length s2 = Suc (length st) \<and> length t2 = Suc (length st')
      \<and> s2 ! length st = t2 ! length st'"
    using assms(3) by (simp add: s2_def t2_def setitem_def)
  then have df': "t2 ! length st' = df" by (simp add: df_def)
  show ?thesis
  proof (cases "groupby df [0 ..< length (index df)] ''match_id''")
    case (Inl err)
    with r show ?thesis
      by (simp add: role_diff_def copy_def Let_def s2_def [symmetric] t2_def [symmetric]
            df_def [symmetric] df')
  next
    case (Inr ms)
    have "(length (fst (for_each (match_roles value_col name df (length st)) ms s2))
             = Suc (length st)
          \<and> length (fst (for_each (match_roles value_col name df (length st')) ms t2))
             = Suc (length st')
          \<and> fst (for_each (match_roles value_col name df (length st)) ms s2) ! length st
              = fst (for_each (match_roles value_col name df (length st')) ms t2) ! length st')
     \<and> snd (for_each (match_roles value_col name df (length st)) ms s2)
         = snd (for_each (match_roles value_col name df (length st')) ms t2)"
      by (rule for_each_related
            [where R = "\<lambda>s t. length s = Suc (length st) \<and> length t = Suc (length st')
                \<and> s ! length st = t ! length st'",
             OF r match_roles_related])
    with Inr show ?thesis
      by (auto simp: role_diff_def copy_def Let_def s2_def [symmetric] t2_def [symmetric]
            df_def [symmetric] df' split: prod.splits option.splits)
  qed
qed

lemma role_transforms_diff:
  "(f, value_col, out_col) \<in> set role_transforms \<Longrightarrow> f = role_diff value_col out_col"
  by (auto simp: role_transforms_def role_gold_diff_def role_xp_diff_def role_cs_diff_def
        role_kill_diff_def role_deaths_diff_def role_vision_diff_def)

text \<open>
  C7. Each of the six transforms leaves every table of the store as it was, the table
  passed in among them, and what it returns is a new table: the index of the table passed
  in, its columns, unchanged and in their order, and after them the output column, with
  one float for each row. It returns whenever the table passed in is well formed and has
  the columns \<open>match_id\<close> and \<open>teamPosition\<close> and numbers in the column read. The table
  returned, or the exception raised, depends on the table passed in only, not on where it
  is or on the other tables. As in the data model of the specification, the output column
  is not among the columns of the table passed in.
\<close>

theorem role_diff_frame:
  assumes "(f, value_col, out_col) \<in> set role_transforms"
    and "p < length st" and "out_col \<notin> fst ` set (columns (st ! p))"
    and "f st p = (st', res)"
  shows "take (length st) st' = st
     \<and> length st' = Suc (length st)
     \<and> (\<forall>q. res = Inr q \<longrightarrow>
          q = length st
          \<and> index (st' ! q) = index (st ! p)
          \<and> (\<exists>col. columns (st' ! q) = columns (st ! p) @ [(out_col, col)]
                \<and> length col = length (index (st ! p))
                \<and> (\<forall>c \<in> set col. \<exists>x. c = CFloat x)))
     \<and> (wf_frame (st ! p)
          \<and> map_of (columns (st ! p)) ''match_id'' \<noteq> None
          \<and> map_of (columns (st ! p)) ''teamPosition'' \<noteq> None
          \<and> (\<exists>vc. map_of (columns (st ! p)) value_col = Some vc
                \<and> (\<forall>c \<in> set vc. number c \<noteq> None))
          \<longrightarrow> res = Inr (length st))
     \<and> (\<forall>t p' t' res'. p' < length t \<and> t ! p' = st ! p \<and> f t p' = (t', res') \<longrightarrow>
          t' ! length t = st' ! length st
          \<and> map_sum id (\<lambda>q. ()) res' = map_sum id (\<lambda>q. ()) res)"
proof -
  have f: "f = role_diff value_col out_col"
    using assms(1) by (rule role_transforms_diff)
  from assms(4) have st': "st' = fst (role_diff value_col out_col st p)"
    and res: "res = snd (role_diff value_col out_col st p)"
    by (simp_all add: f)
  note k = role_diff_keeps [OF assms(2,3), of value_col, folded st']
  have a: "take (length st) st' = st" and b: "length st' = Suc (length st)"
    using k by simp_all
  have c: "\<forall>q. res = Inr q \<longrightarrow>
          q = length st
          \<and> index (st' ! q) = index (st ! p)
          \<and> (\<exists>col. columns (st' ! q) = columns (st ! p) @ [(out_col, col)]
                \<and> length col = length (index (st ! p))
                \<and> (\<forall>c \<in> set col. \<exists>x. c = CFloat x))"
  proof (intro allI impI)
    fix q assume "res = Inr q"
    then have "q = length st"
      unfolding res by (rule role_diff_address)
    with k show "q = length st
          \<and> index (st' ! q) = index (st ! p)
          \<and> (\<exists>col. columns (st' ! q) = columns (st ! p) @ [(out_col, col)]
                \<and> length col = length (index (st ! p))
                \<and> (\<forall>c \<in> set col. \<exists>x. c = CFloat x))"
      by simp
  qed
  have d: "wf_frame (st ! p)
          \<and> map_of (columns (st ! p)) ''match_id'' \<noteq> None
          \<and> map_of (columns (st ! p)) ''teamPosition'' \<noteq> None
          \<and> (\<exists>vc. map_of (columns (st ! p)) value_col = Some vc
                \<and> (\<forall>c \<in> set vc. number c \<noteq> None))
          \<longrightarrow> res = Inr (length st)"
  proof
    assume h: "wf_frame (st ! p)
          \<and> map_of (columns (st ! p)) ''match_id'' \<noteq> None
          \<and> map_of (columns (st ! p)) ''teamPosition'' \<noteq> None
          \<and> (\<exists>vc. map_of (columns (st ! p)) value_col = Some vc
                \<and> (\<forall>c \<in> set vc. number c \<noteq> None))"
    then obtain mc tc vc where m: "map_of (columns (st ! p)) ''match_id'' = Some mc"
      and t: "map_of (columns (st ! p)) ''teamPosition'' = Some tc"
      and v: "map_of (columns (st ! p)) value_col = Some vc"
      and num: "\<forall>c \<in> set vc. number c \<noteq> None"
      by blast
    from h have wf: "wf_frame (st ! p)" by simp
    show "res = Inr (length st)"
      unfolding res by (rule role_diff_returns [OF assms(2) wf m t v num assms(3)])
  qed
  have e: "\<forall>t p' t' res'. p' < length t \<and> t ! p' = st ! p \<and> f t p' = (t', res') \<longrightarrow>
          t' ! length t = st' ! length st
          \<and> map_sum id (\<lambda>q. ()) res' = map_sum id (\<lambda>q. ()) res"
  proof (intro allI impI)
    fix t p' t' res'
    assume h: "p' < length t \<and> t ! p' = st ! p \<and> f t p' = (t', res')"
    then have t': "t' = fst (role_diff value_col out_col t p')"
      and res': "res' = snd (role_diff value_col out_col t p')"
      by (simp_all add: f)
    from h have "p' < length t" "t ! p' = st ! p" by simp_all
    from role_diff_of_table [OF this(1) assms(2) this(2), of value_col out_col]
    show "t' ! length t = st' ! length st
          \<and> map_sum id (\<lambda>q. ()) res' = map_sum id (\<lambda>q. ()) res"
      by (simp only: t' res' st' res)
  qed
  from a b c d e show ?thesis by (intro conjI)
qed

theorem role_diff_frame_witness:
  "take 1 (fst (role_gold_diff
      [example_players [3, 8] [(''MIDDLE'', 7000), (''MIDDLE'', 6500)]] 0))
     = [example_players [3, 8] [(''MIDDLE'', 7000), (''MIDDLE'', 6500)]]
   \<and> snd (role_gold_diff
      [example_players [3, 8] [(''MIDDLE'', 7000), (''MIDDLE'', 6500)]] 0) = Inr 1
   \<and> index (fst (role_gold_diff
      [example_players [3, 8] [(''MIDDLE'', 7000), (''MIDDLE'', 6500)]] 0) ! 1) = [3, 8]
   \<and> (\<exists>col. columns (fst (role_gold_diff
          [example_players [3, 8] [(''MIDDLE'', 7000), (''MIDDLE'', 6500)]] 0) ! 1)
        = columns (example_players [3, 8] [(''MIDDLE'', 7000), (''MIDDLE'', 6500)])
            @ [(''roleGoldDiff'', col)]
        \<and> length col = 2)
   \<and> fst (role_gold_diff
        [example_players [] [],
         example_players [3, 8] [(''MIDDLE'', 7000), (''MIDDLE'', 6500)]] 1) ! 2
     = fst (role_gold_diff
        [example_players [3, 8] [(''MIDDLE'', 7000), (''MIDDLE'', 6500)]] 0) ! 1"
proof -
  let ?t = "example_players [3, 8] [(''MIDDLE'', 7000), (''MIDDLE'', 6500)]"
  let ?u = "example_players [] []"
  let ?st' = "fst (role_gold_diff [?t] 0)"
  let ?res = "snd (role_gold_diff [?t] 0)"
  have m: "(role_gold_diff, ''totalGold'', ''roleGoldDiff'') \<in> set role_transforms"
    by (simp add: role_transforms_def)
  have p: "0 < length [?t]" by simp
  have n: "''roleGoldDiff'' \<notin> fst ` set (columns ([?t] ! 0))"
    by (simp add: example_players_def)
  have r: "role_gold_diff [?t] 0 = (?st', ?res)" by simp
  note th = role_diff_frame [OF m p n r]
  from th have a: "take (length [?t]) ?st' = [?t]" by (rule conjunct1)
  have h: "wf_frame ([?t] ! 0)
          \<and> map_of (columns ([?t] ! 0)) ''match_id'' \<noteq> None
          \<and> map_of (columns ([?t] ! 0)) ''teamPosition'' \<noteq> None
          \<and> (\<exists>vc. map_of (columns ([?t] ! 0)) ''totalGold'' = Some vc
                \<and> (\<forall>c \<in> set vc. number c \<noteq> None))"
    by (simp add: wf_frame_def example_players_def number_def)
  from th h have d: "?res = Inr (length [?t])" by blast
  from th d have c: "index (?st' ! length [?t]) = index ([?t] ! 0)
      \<and> (\<exists>col. columns (?st' ! length [?t]) = columns ([?t] ! 0) @ [(''roleGoldDiff'', col)]
             \<and> length col = length (index ([?t] ! 0))
             \<and> (\<forall>c \<in> set col. \<exists>x. c = CFloat x))"
    by blast
  from th have e: "\<forall>t p' t' res'.
      p' < length t \<and> t ! p' = [?t] ! 0 \<and> role_gold_diff t p' = (t', res') \<longrightarrow>
          t' ! length t = ?st' ! length [?t]
          \<and> map_sum id (\<lambda>q. ()) res' = map_sum id (\<lambda>q. ()) ?res"
    by (elim conjE)
  from e [rule_format, of 1 "[?u, ?t]" "fst (role_gold_diff [?u, ?t] 1)"
      "snd (role_gold_diff [?u, ?t] 1)"]
  have e': "fst (role_gold_diff [?u, ?t] 1) ! 2 = ?st' ! 1"
    by (simp add: numeral_2_eq_2)
  have i: "index ?t = [3, 8]"
    by (simp add: example_players_def)
  from a d c e' show ?thesis
    by (auto simp: i numeral_2_eq_2)
qed

subsection \<open>Repeated index labels\<close>

text \<open>
  C2. The two rows of a valid role group may carry the same index label, and then the
  outputs do not cancel: two \<open>JUNGLE\<close> rows of one match with 3000 and 5000 gold, both
  labelled 7, both get +1000, so that the outputs add up to 2000 and differ by 0.
\<close>

theorem role_pair_sum_repeated_label:
  "role_gold_diff [example_players [7, 7] [(''JUNGLE'', 3000), (''JUNGLE'', 5000)]] 0
   = ([example_players [7, 7] [(''JUNGLE'', 3000), (''JUNGLE'', 5000)],
       \<lparr>index = [7, 7],
        columns = columns (example_players [7, 7] [(''JUNGLE'', 3000), (''JUNGLE'', 5000)])
                    @ [(''roleGoldDiff'', [CFloat 1000, CFloat 1000])]\<rparr>],
      Inr 1)"
  by (simp add: role_gold_diff_def role_diff_def copy_def setitem_def set_column_def
        groupby_def group_rows_def group_key_def match_roles_def role_pair_def number_def
        loc_setitem_def loc_write_def example_players_def)

text \<open>
  C3. In the scenario of the specification, two \<open>JUNGLE\<close> rows with 10000 and 12000
  gold, the first row gets +1000 and not -1000 when both rows carry the index label 0.
\<close>

theorem role_pair_signs_repeated_label:
  "role_gold_diff [example_players [0, 0] [(''JUNGLE'', 10000), (''JUNGLE'', 12000)]] 0
   = ([example_players [0, 0] [(''JUNGLE'', 10000), (''JUNGLE'', 12000)],
       \<lparr>index = [0, 0],
        columns = columns (example_players [0, 0] [(''JUNGLE'', 10000), (''JUNGLE'', 12000)])
                    @ [(''roleGoldDiff'', [CFloat 1000, CFloat 1000])]\<rparr>],
      Inr 1)"
  by (simp add: role_gold_diff_def role_diff_def copy_def setitem_def set_column_def
        groupby_def group_rows_def group_key_def match_roles_def role_pair_def number_def
        loc_setitem_def loc_write_def example_players_def)

text \<open>
  C4. A row without partner gets the value of another row when it shares its index label
  with a row of a valid pair: the only \<open>TOP\<close> row of the match, labelled 0 like the first
  \<open>JUNGLE\<close> row, gets -100 and not 0.
\<close>

theorem role_unpaired_repeated_label:
  "role_gold_diff
     [example_players [0, 1, 0] [(''JUNGLE'', 100), (''JUNGLE'', 300), (''TOP'', 50)]] 0
   = ([example_players [0, 1, 0] [(''JUNGLE'', 100), (''JUNGLE'', 300), (''TOP'', 50)],
       \<lparr>index = [0, 1, 0],
        columns = columns (example_players [0, 1, 0]
                     [(''JUNGLE'', 100), (''JUNGLE'', 300), (''TOP'', 50)])
                    @ [(''roleGoldDiff'', [CFloat (- 100), CFloat 100, CFloat (- 100)])]\<rparr>],
      Inr 1)"
  by (simp add: role_gold_diff_def role_diff_def copy_def setitem_def set_column_def
        groupby_def group_rows_def group_key_def match_roles_def role_pair_def number_def
        loc_setitem_def loc_write_def example_players_def)

end
